theory Spec2Isabelle
  imports Complex_Main
begin

section \<open>The Swoupon formula engine\<close>

text \<open>
  Embedding of \<^verbatim>\<open>src/python/swoupon_calc.py\<close>. The module has four functions of one
  volume \<open>v\<close>; each of them validates \<open>v\<close> itself and raises on a negative volume.

  In this section Python floats are modelled by the real numbers they stand for, so
  \<^verbatim>\<open>np.exp\<close> is \<open>exp\<close> and \<^verbatim>\<open>np.power\<close> on a base that is at least \<open>1\<close> is
  \<open>powr\<close>: this is the exact-arithmetic reading of the formulas, the one in which the
  specification states them. It decides the claims on which rounding does not bear (the
  guards, the value at zero, the order of the operations). The functions as the code
  computes them, with every operation rounded to a double, follow in the section on
  double precision; the claims on which rounding bears are settled there.
\<close>

subsection \<open>Errors and constants\<close>

datatype error = ValueError | ZeroDivisionError

definition C_0_01 :: real where
  "C_0_01 = 0.01"

definition C_0_02 :: real where
  "C_0_02 = 0.02"

definition C_NEG_0_00005 :: real where
  "C_NEG_0_00005 = - 0.00005"

definition C_0_1 :: real where
  "C_0_1 = 0.1"

definition POWER_EXPONENT :: real where
  "POWER_EXPONENT = 0.3"

definition MAX_TI_FRACTION_OF_TR :: real where
  "MAX_TI_FRACTION_OF_TR = 1 / 3"

subsection \<open>The four functions\<close>

text \<open>The source's \<^verbatim>\<open>_F\<close>; an Isabelle name cannot start with an underscore.\<close>

definition F :: "real \<Rightarrow> error + real" where
  "F v =
     (if v < 0 then Inl ValueError
      else Inr (C_0_01 + (C_0_02 * exp (C_NEG_0_00005 * v))))"

definition calculate_TR :: "real \<Rightarrow> error + real" where
  "calculate_TR v =
     (if v < 0 then Inl ValueError
      else if v = 0 then Inr 0
      else if C_0_1 = 0 then Inl ZeroDivisionError
      else (case F v of
              Inl e \<Rightarrow> Inl e
            | Inr f_v \<Rightarrow> Inr (f_v * v / C_0_1)))"

definition calculate_potential_TI :: "real \<Rightarrow> error + real" where
  "calculate_potential_TI v =
     (if v < 0 then Inl ValueError
      else if C_0_1 = 0 then Inl ZeroDivisionError
      else (let base = 1 + v;
                pow_val = base powr POWER_EXPONENT
            in Inr (pow_val / C_0_1)))"

definition calculate_TR_and_TI :: "real \<Rightarrow> error + (real \<times> real)" where
  "calculate_TR_and_TI v =
     (if v < 0 then Inl ValueError
      else (case calculate_TR v of
              Inl e \<Rightarrow> Inl e
            | Inr tr_value \<Rightarrow>
                (case calculate_potential_TI v of
                   Inl e \<Rightarrow> Inl e
                 | Inr potential_ti_value \<Rightarrow>
                     (let ti_upper_bound = MAX_TI_FRACTION_OF_TR * tr_value;
                          ti_value = min potential_ti_value ti_upper_bound;
                          ti_value' = max 0 ti_value
                      in Inr (tr_value, ti_value')))))"

subsection \<open>The reference pipeline of the specification\<close>





subsection \<open>The evaluation without its final floor\<close>

text \<open>
  \<open>calculate_TR_and_TI\<close> with the statement \<^verbatim>\<open>ti_value = max(0.0, ti_value)\<close>
  (line 80 of the source) removed and nothing else changed.
\<close>

definition calculate_TR_and_TI_unfloored :: "real \<Rightarrow> error + (real \<times> real)" where
  "calculate_TR_and_TI_unfloored v =
     (if v < 0 then Inl ValueError
      else (case calculate_TR v of
              Inl e \<Rightarrow> Inl e
            | Inr tr_value \<Rightarrow>
                (case calculate_potential_TI v of
                   Inl e \<Rightarrow> Inl e
                 | Inr potential_ti_value \<Rightarrow>
                     (let ti_upper_bound = MAX_TI_FRACTION_OF_TR * tr_value;
                          ti_value = min potential_ti_value ti_upper_bound
                      in Inr (tr_value, ti_value)))))"

section \<open>The functions in double precision\<close>

text \<open>
  A Python float is an IEEE-754 binary64 number and every arithmetic operation on floats
  returns the double nearest to the exact result, ties going to the even significand.
  \<open>round_double\<close> is that rounding, on reals of magnitude below \<open>2 ^ 1024\<close>: the
  result is a multiple of the \<open>quantum\<close> of its argument, which is \<open>2 powr (e - 52)\<close> for
  an argument whose magnitude is at least \<open>2 powr e\<close> and less than \<open>2 powr (e + 1)\<close>, with
  \<open>e\<close> no less than \<open>- 1022\<close> (the subnormal range has the quantum \<open>2 powr (- 1074)\<close>).
  Overflow to infinity is not modelled; it cannot occur in this module on a finite
  volume \<open>v\<close>: the unit factor is at most \<open>0.03\<close>, so the cost is at most \<open>0.3 * v\<close>, and the
  potential reward is a power of \<open>1 + v\<close> with an exponent below one.
\<close>

definition round_half_even :: "real \<Rightarrow> int" where
  "round_half_even x =
     (let n = \<lfloor>x\<rfloor>; r = x - of_int n
      in if r < 1 / 2 then n
         else if 1 / 2 < r then n + 1
         else if even n then n else n + 1)"

definition quantum :: "real \<Rightarrow> real" where
  "quantum x = 2 powr of_int (max \<lfloor>log 2 \<bar>x\<bar>\<rfloor> (- 1022) - 52)"

definition round_double :: "real \<Rightarrow> real" where
  "round_double x =
     (if x = 0 then 0 else of_int (round_half_even (x / quantum x)) * quantum x)"

text \<open>
  \<^verbatim>\<open>_F\<close> with every operation rounded: the three literals are the doubles nearest to
  the decimal constants, the product \<^verbatim>\<open>C_NEG_0_00005 * v\<close>, the product with
  \<^verbatim>\<open>C_0_02\<close> and the sum are rounded, and \<^verbatim>\<open>np.exp\<close> is a parameter, since
  NumPy's implementation is not part of the repository. The volume \<open>v\<close> is meant to be
  a double itself.
\<close>

definition F_double :: "(real \<Rightarrow> real) \<Rightarrow> real \<Rightarrow> error + real" where
  "F_double np_exp v =
     (if v < 0 then Inl ValueError
      else Inr (round_double (round_double C_0_01 +
             round_double (round_double C_0_02 *
               np_exp (round_double (round_double C_NEG_0_00005 * v))))))"

text \<open>The correctly rounded exponential, one implementation that \<^verbatim>\<open>np.exp\<close> may have.\<close>

definition exp_double :: "real \<Rightarrow> real" where
  "exp_double x = round_double (exp x)"

text \<open>
  The other three functions with every operation rounded, in the order of the source:
  \<^verbatim>\<open>f_v * v / C_0_1\<close> is a rounded product followed by a rounded quotient,
  \<^verbatim>\<open>1 + v\<close> is rounded, \<^verbatim>\<open>np.power\<close> is a parameter like \<^verbatim>\<open>np.exp\<close>, and the
  cap is the rounded product of the double nearest to \<open>1 / 3\<close> (Python's \<^verbatim>\<open>1/3\<close>) and
  the cost. The guards are those of the source.
\<close>

definition calculate_TR_double :: "(real \<Rightarrow> real) \<Rightarrow> real \<Rightarrow> error + real" where
  "calculate_TR_double np_exp v =
     (if v < 0 then Inl ValueError
      else if v = 0 then Inr 0
      else if round_double C_0_1 = 0 then Inl ZeroDivisionError
      else (case F_double np_exp v of
              Inl e \<Rightarrow> Inl e
            | Inr f_v \<Rightarrow> Inr (round_double (round_double (f_v * v) / round_double C_0_1))))"

definition calculate_potential_TI_double ::
    "(real \<Rightarrow> real \<Rightarrow> real) \<Rightarrow> real \<Rightarrow> error + real" where
  "calculate_potential_TI_double np_power v =
     (if v < 0 then Inl ValueError
      else if round_double C_0_1 = 0 then Inl ZeroDivisionError
      else (let base = round_double (1 + v);
                pow_val = np_power base (round_double POWER_EXPONENT)
            in Inr (round_double (pow_val / round_double C_0_1))))"

definition calculate_TR_and_TI_double ::
    "(real \<Rightarrow> real) \<Rightarrow> (real \<Rightarrow> real \<Rightarrow> real) \<Rightarrow> real \<Rightarrow> error + (real \<times> real)" where
  "calculate_TR_and_TI_double np_exp np_power v =
     (if v < 0 then Inl ValueError
      else (case calculate_TR_double np_exp v of
              Inl e \<Rightarrow> Inl e
            | Inr tr_value \<Rightarrow>
                (case calculate_potential_TI_double np_power v of
                   Inl e \<Rightarrow> Inl e
                 | Inr potential_ti_value \<Rightarrow>
                     (let ti_upper_bound =
                            round_double (round_double MAX_TI_FRACTION_OF_TR * tr_value);
                          ti_value = min potential_ti_value ti_upper_bound;
                          ti_value' = max 0 ti_value
                      in Inr (tr_value, ti_value')))))"

text \<open>The correctly rounded power, one implementation that \<^verbatim>\<open>np.power\<close> may have.\<close>

definition power_double :: "real \<Rightarrow> real \<Rightarrow> real" where
  "power_double b p = round_double (b powr p)"

section \<open>Closed forms on the valid domain\<close>

lemmas constant_defs =
  C_0_01_def C_0_02_def C_NEG_0_00005_def C_0_1_def POWER_EXPONENT_def
  MAX_TI_FRACTION_OF_TR_def

lemma F_nonneg_eq:
  "0 \<le> v \<Longrightarrow> F v = Inr (1 / 100 + 2 / 100 * exp (- (v / 20000)))"
  by (simp add: F_def constant_defs)

lemma calculate_TR_nonneg_eq:
  "0 \<le> v \<Longrightarrow>
   calculate_TR v = Inr ((1 / 100 + 2 / 100 * exp (- (v / 20000))) * v * 10)"
  by (simp add: calculate_TR_def F_def constant_defs)

lemma calculate_potential_TI_nonneg_eq:
  "0 \<le> v \<Longrightarrow> calculate_potential_TI v = Inr ((1 + v) powr (3 / 10) * 10)"
  by (simp add: calculate_potential_TI_def constant_defs)

lemma calculate_TR_and_TI_nonneg_eq:
  "0 \<le> v \<Longrightarrow>
   calculate_TR_and_TI v =
     Inr ((1 / 100 + 2 / 100 * exp (- (v / 20000))) * v * 10,
          max 0 (min ((1 + v) powr (3 / 10) * 10)
                     ((1 / 100 + 2 / 100 * exp (- (v / 20000))) * v * 10 / 3)))"
  by (simp add: calculate_TR_and_TI_def calculate_TR_nonneg_eq
      calculate_potential_TI_nonneg_eq MAX_TI_FRACTION_OF_TR_def Let_def)

section \<open>Analysis of the cost and reward formulas\<close>

subsection \<open>The cost formula is non-decreasing\<close>

lemma exp_decay_bound: "- (1 / 4) \<le> exp (- x) * (1 - x)" for x :: real
proof (cases "x \<le> 1")
  case True
  then have "0 \<le> exp (- x) * (1 - x)" by simp
  then show ?thesis by linarith
next
  case False
  then have x: "1 < x" by simp
  have "1 + x + x\<^sup>2 / 2 \<le> exp x"
    using exp_lower_Taylor_quadratic [of x] x by simp
  moreover have "4 * (x - 1) \<le> 1 + x + x\<^sup>2 / 2"
  proof -
    have "0 \<le> (x - 3)\<^sup>2" by simp
    then show ?thesis by (simp add: power2_eq_square algebra_simps)
  qed
  ultimately have "4 * (x - 1) \<le> exp x" by linarith
  then have "4 * (x - 1) * exp (- x) \<le> exp x * exp (- x)"
    by (intro mult_right_mono) simp_all
  then have "4 * (x - 1) * exp (- x) \<le> 1"
    by (simp add: exp_minus)
  then show ?thesis by (simp add: algebra_simps)
qed

lemma cost_deriv:
  fixes x :: real
  shows "((\<lambda>v. (1 / 100 + 2 / 100 * exp (- (v / 20000))) * v * 10) has_real_derivative
     (1 / 10 + 1 / 5 * (exp (- (x / 20000)) * (1 - x / 20000)))) (at x)"
  by (auto intro!: derivative_eq_intros simp: field_simps)

lemma cost_mono:
  fixes v1 v2 :: real
  assumes "v1 \<le> v2"
  shows "(1 / 100 + 2 / 100 * exp (- (v1 / 20000))) * v1 * 10
       \<le> (1 / 100 + 2 / 100 * exp (- (v2 / 20000))) * v2 * 10"
proof (rule DERIV_nonneg_imp_nondecreasing [OF assms])
  fix x :: real
  have "0 \<le> 1 / 10 + 1 / 5 * (exp (- (x / 20000)) * (1 - x / 20000))"
    using exp_decay_bound [of "x / 20000"] by linarith
  then show "\<exists>y. ((\<lambda>v. (1 / 100 + 2 / 100 * exp (- (v / 20000))) * v * 10)
      has_real_derivative y) (at x) \<and> 0 \<le> y"
    using cost_deriv by blast
qed

subsection \<open>Bounds on powers with exponents in tenths\<close>

lemma powr_tenths_power:
  fixes x :: real
  assumes "0 < x"
  shows "(x powr (real m / 10)) ^ 10 = x ^ m"
proof -
  have "(x powr (real m / 10)) ^ 10 = x powr (real 10 * (real m / 10))"
    using assms by (subst powr_power) simp_all
  also have "\<dots> = x powr real m" by simp
  also have "\<dots> = x ^ m" using assms by (rule powr_realpow)
  finally show ?thesis .
qed

lemma powr_tenths_ge:
  fixes x c :: real
  assumes "0 < x" and "c ^ 10 \<le> x ^ m"
  shows "c \<le> x powr (real m / 10)"
proof (rule power_le_imp_le_base [where n = 9])
  show "c ^ Suc 9 \<le> (x powr (real m / 10)) ^ Suc 9"
    using assms powr_tenths_power [of x m] by simp
  show "0 \<le> x powr (real m / 10)" by simp
qed

lemma powr_tenths_le:
  fixes x c :: real
  assumes "0 < x" and "0 \<le> c" and "x ^ m \<le> c ^ 10"
  shows "x powr (real m / 10) \<le> c"
proof (rule power_le_imp_le_base [where n = 9])
  show "(x powr (real m / 10)) ^ Suc 9 \<le> c ^ Suc 9"
    using assms powr_tenths_power [of x m] by simp
  show "0 \<le> c" by fact
qed

lemma powr_3_10_101: "39 / 10 \<le> (101::real) powr (3 / 10)"
proof -
  have "(39 / 10 :: real) ^ 10 \<le> 101 ^ 3" by (simp add: power_divide)
  then show ?thesis using powr_tenths_ge [of 101 "39 / 10" 3] by simp
qed

lemma powr_3_10_100001: "(100001::real) powr (3 / 10) \<le> 32"
  using powr_tenths_le [of 100001 32 3] by simp

lemma powr_7_10_391: "60 \<le> (391::real) powr (7 / 10)"
  using powr_tenths_ge [of 391 60 7] by simp

lemma powr_7_10_4001: "200 \<le> (4001::real) powr (7 / 10)"
  using powr_tenths_ge [of 4001 200 7] by simp

subsection \<open>The gap between potential reward and cap\<close>

lemma powr_split_3_7:
  fixes y :: real
  assumes "0 < y"
  shows "y powr (3 / 10) * y powr (7 / 10) = y"
proof -
  have "y powr (3 / 10) * y powr (7 / 10) = y powr (3 / 10 + 7 / 10)"
    by (simp only: powr_add)
  also have "\<dots> = y" using assms by simp
  finally show ?thesis .
qed

lemma pot_deriv:
  fixes x :: real
  assumes "0 \<le> x"
  shows "((\<lambda>v. (1 + v) powr (3 / 10) * 10) has_real_derivative
          3 / (1 + x) powr (7 / 10)) (at x)"
proof -
  have pos: "0 < 1 + x" using assms by simp
  have "((\<lambda>v. (1 + v) powr (3 / 10) * 10) has_real_derivative
          (3 / 10 * (1 + x) powr (3 / 10 - 1)) * 10) (at x)"
    using pos by (auto intro!: derivative_eq_intros)
  moreover have "(3 / 10 * (1 + x) powr (3 / 10 - 1)) * 10 = 3 / (1 + x) powr (7 / 10)"
  proof -
    have "(1 + x) powr (3 / 10 - 1) = (1 + x) powr (- (7 / 10))" by simp
    also have "\<dots> = 1 / (1 + x) powr (7 / 10)" by (rule powr_minus_divide)
    finally show ?thesis by simp
  qed
  ultimately show ?thesis by simp
qed

lemma gap_deriv:
  fixes x :: real
  assumes "0 \<le> x"
  shows "((\<lambda>v. (1 + v) powr (3 / 10) * 10
               - (1 / 100 + 2 / 100 * exp (- (v / 20000))) * v * 10 / 3)
          has_real_derivative
          3 / (1 + x) powr (7 / 10)
            - (1 / 10 + 1 / 5 * (exp (- (x / 20000)) * (1 - x / 20000))) / 3) (at x)"
  by (intro DERIV_diff DERIV_cdivide pot_deriv [OF assms] cost_deriv)

lemma gap_deriv_nonpos:
  fixes x :: real
  assumes "390 \<le> x"
  shows "3 / (1 + x) powr (7 / 10)
           - (1 / 10 + 1 / 5 * (exp (- (x / 20000)) * (1 - x / 20000))) / 3 \<le> 0"
proof (cases "x \<le> 4000")
  case True
  have "(391::real) powr (7 / 10) \<le> (1 + x) powr (7 / 10)"
    using assms by (intro powr_mono2) simp_all
  then have big: "60 \<le> (1 + x) powr (7 / 10)"
    using powr_7_10_391 by linarith
  then have "3 / (1 + x) powr (7 / 10) \<le> 3 / 60"
    using assms by (intro divide_left_mono) simp_all
  then have first: "3 / (1 + x) powr (7 / 10) \<le> 1 / 20" by simp
  have t: "4 / 5 \<le> 1 - x / 20000" using True by simp
  have "1 + - (x / 20000) \<le> exp (- (x / 20000))" by (rule exp_ge_add_one_self)
  then have e: "4 / 5 \<le> exp (- (x / 20000))" using t by linarith
  have "4 / 5 * (4 / 5) \<le> exp (- (x / 20000)) * (1 - x / 20000)"
    using e t by (intro mult_mono) simp_all
  then have second: "16 / 25 \<le> exp (- (x / 20000)) * (1 - x / 20000)" by simp
  have "q - (1 / 10 + 1 / 5 * p) / 3 \<le> 0" if "16 / 25 \<le> p" and "q \<le> 1 / 20"
    for p q :: real
    using that by (simp add: field_simps)
  from this [OF second first] show ?thesis .
next
  case False
  then have x: "4000 \<le> x" by simp
  have "(4001::real) powr (7 / 10) \<le> (1 + x) powr (7 / 10)"
    using x by (intro powr_mono2) simp_all
  then have big: "200 \<le> (1 + x) powr (7 / 10)"
    using powr_7_10_4001 by linarith
  then have "3 / (1 + x) powr (7 / 10) \<le> 3 / 200"
    using x by (intro divide_left_mono) simp_all
  then have first: "3 / (1 + x) powr (7 / 10) \<le> 3 / 200" by simp
  have "q - (1 / 10 + 1 / 5 * p) / 3 \<le> 0" if "- (1 / 4) \<le> p" and "q \<le> 3 / 200"
    for p q :: real
    using that by (simp add: field_simps)
  from this [OF exp_decay_bound first] show ?thesis .
qed

lemma gap_nonincreasing:
  fixes a b :: real
  assumes "390 \<le> a" and "a \<le> b"
  shows "(1 + b) powr (3 / 10) * 10 - (1 / 100 + 2 / 100 * exp (- (b / 20000))) * b * 10 / 3
       \<le> (1 + a) powr (3 / 10) * 10 - (1 / 100 + 2 / 100 * exp (- (a / 20000))) * a * 10 / 3"
proof (rule DERIV_nonpos_imp_nonincreasing [OF assms(2)])
  fix x :: real
  assume "a \<le> x"
  then have x: "390 \<le> x" using assms(1) by simp
  then have "0 \<le> x" by simp
  from gap_deriv [OF this] gap_deriv_nonpos [OF x]
  show "\<exists>y. ((\<lambda>v. (1 + v) powr (3 / 10) * 10
               - (1 / 100 + 2 / 100 * exp (- (v / 20000))) * v * 10 / 3)
          has_real_derivative y) (at x) \<and> y \<le> 0"
    by blast
qed

lemma cap_le_linear:
  fixes v :: real
  assumes "0 \<le> v"
  shows "(1 / 100 + 2 / 100 * exp (- (v / 20000))) * v * 10 / 3 \<le> v / 10"
proof -
  have "exp (- (v / 20000)) \<le> 1" using assms by simp
  then have "1 / 100 + 2 / 100 * exp (- (v / 20000)) \<le> 3 / 100" by simp
  then have "(1 / 100 + 2 / 100 * exp (- (v / 20000))) * v \<le> 3 / 100 * v"
    using assms by (intro mult_right_mono) simp_all
  then show ?thesis by simp
qed

lemma cap_ge_linear:
  fixes v :: real
  assumes "0 \<le> v"
  shows "v / 30 \<le> (1 / 100 + 2 / 100 * exp (- (v / 20000))) * v * 10 / 3"
proof -
  have "1 / 100 \<le> 1 / 100 + 2 / 100 * exp (- (v / 20000))" by simp
  then have "1 / 100 * v \<le> (1 / 100 + 2 / 100 * exp (- (v / 20000))) * v"
    using assms by (intro mult_right_mono) simp_all
  then show ?thesis by simp
qed

lemma gap_nonneg_low:
  fixes v :: real
  assumes "0 \<le> v" and "v \<le> 390"
  shows "(1 / 100 + 2 / 100 * exp (- (v / 20000))) * v * 10 / 3 \<le> (1 + v) powr (3 / 10) * 10"
proof (cases "v \<le> 100")
  case True
  have "1 \<le> (1 + v) powr (3 / 10)"
    using assms by (intro ge_one_powr_ge_zero) simp_all
  then show ?thesis using cap_le_linear [OF assms(1)] True by linarith
next
  case False
  then have "(101::real) powr (3 / 10) \<le> (1 + v) powr (3 / 10)"
    by (intro powr_mono2) simp_all
  then have "39 / 10 \<le> (1 + v) powr (3 / 10)" using powr_3_10_101 by linarith
  then show ?thesis using cap_le_linear [OF assms(1)] assms(2) by linarith
qed

lemma gap_nonpos_high:
  "(1 + 100000) powr (3 / 10) * 10
     \<le> (1 / 100 + 2 / 100 * exp (- (100000 / 20000))) * 100000 * 10 / (3::real)"
proof -
  have "(1 + 100000 :: real) powr (3 / 10) \<le> 32" using powr_3_10_100001 by simp
  moreover have "(100000::real) / 30
      \<le> (1 / 100 + 2 / 100 * exp (- (100000 / 20000))) * 100000 * 10 / 3"
    by (rule cap_ge_linear) simp
  ultimately show ?thesis by linarith
qed

lemma crossover_exists:
  "\<exists>c::real. 390 \<le> c \<and> c \<le> 100000 \<and>
     (1 + c) powr (3 / 10) * 10 = (1 / 100 + 2 / 100 * exp (- (c / 20000))) * c * 10 / 3"
proof -
  let ?g = "\<lambda>v::real. (1 + v) powr (3 / 10) * 10
               - (1 / 100 + 2 / 100 * exp (- (v / 20000))) * v * 10 / 3"
  have cont: "continuous_on {390..100000} ?g"
  proof (rule DERIV_continuous_on)
    fix x :: real
    assume "x \<in> {390..100000}"
    then have "0 \<le> x" by simp
    from gap_deriv [OF this]
    show "(?g has_real_derivative
        3 / (1 + x) powr (7 / 10)
          - (1 / 10 + 1 / 5 * (exp (- (x / 20000)) * (1 - x / 20000))) / 3)
        (at x within {390..100000})"
      by (rule has_field_derivative_at_within)
  qed
  have lo: "0 \<le> ?g 390" using gap_nonneg_low [of 390] by simp
  have hi: "?g 100000 \<le> 0" using gap_nonpos_high by simp
  have "\<exists>x. 390 \<le> x \<and> x \<le> 100000 \<and> ?g x = 0"
    using hi lo cont by (intro IVT2') simp_all
  then show ?thesis by auto
qed

section \<open>Negative volumes\<close>

text \<open>
  C5. For every \<open>v < 0\<close> each of the four operations \<open>calculate_TR_and_TI\<close>,
  \<open>calculate_TR\<close>, \<open>calculate_potential_TI\<close> and \<open>F\<close> fails with the invalid-input
  error \<open>ValueError\<close>; the check is the first statement of each function, so nothing is
  computed before it.
\<close>

theorem negative_volume_raises:
  "v < 0 \<Longrightarrow>
     calculate_TR_and_TI v = Inl ValueError \<and>
     calculate_TR v = Inl ValueError \<and>
     calculate_potential_TI v = Inl ValueError \<and>
     F v = Inl ValueError"
  by (simp add: calculate_TR_and_TI_def calculate_TR_def calculate_potential_TI_def F_def)

theorem negative_volume_raises_witness:
  "(- 1 :: real) < 0 \<and>
     calculate_TR_and_TI (- 1) = Inl ValueError \<and>
     calculate_TR (- 1) = Inl ValueError \<and>
     calculate_potential_TI (- 1) = Inl ValueError \<and>
     F (- 1) = Inl ValueError"
  using negative_volume_raises [of "- 1"] by simp

section \<open>The zero volume\<close>

text \<open>
  C3. \<open>calculate_TR_and_TI 0\<close> returns exactly the pair \<open>(0, 0)\<close>: the potential reward
  at \<open>0\<close> is \<open>1 / C_0_1\<close>, which is positive, the cost at \<open>0\<close> is \<open>0\<close>, so the cap
  \<open>MAX_TI_FRACTION_OF_TR * 0\<close> is \<open>0\<close> and the reward is capped down to \<open>0\<close>.
\<close>

theorem evaluate_zero:
  "calculate_TR_and_TI 0 = Inr (0, 0) \<and>
   calculate_potential_TI 0 = Inr (1 / C_0_1) \<and> 0 < 1 / C_0_1 \<and>
   calculate_TR 0 = Inr 0 \<and> MAX_TI_FRACTION_OF_TR * 0 = 0"
  by (simp add: calculate_TR_and_TI_def calculate_TR_def calculate_potential_TI_def
      constant_defs)

section \<open>Range of the evaluation, exact formulas\<close>

lemma cost_formula_nonneg:
  fixes v :: real
  assumes "0 \<le> v"
  shows "0 \<le> (1 / 100 + 2 / 100 * exp (- (v / 20000))) * v * 10"
  using assms by simp

lemma capped_le_cap:
  fixes p c :: real
  assumes "0 \<le> c"
  shows "max 0 (min p c) \<le> c"
  using assms by (simp add: max_def min_def)

lemma evaluate_bounds_exact:
  assumes "0 \<le> v"
  shows "\<exists>tr ti. calculate_TR_and_TI v = Inr (tr, ti) \<and> 0 \<le> tr \<and> 0 \<le> ti \<and> ti \<le> tr / 3"
proof -
  let ?tr = "(1 / 100 + 2 / 100 * exp (- (v / 20000))) * v * 10"
  let ?ti = "max 0 (min ((1 + v) powr (3 / 10) * 10) (?tr / 3))"
  have tr: "0 \<le> ?tr" by (rule cost_formula_nonneg [OF assms])
  then have "0 \<le> ?tr / 3" by simp
  then have "?ti \<le> ?tr / 3" by (rule capped_le_cap)
  moreover have "0 \<le> ?ti" by simp
  moreover have "calculate_TR_and_TI v = Inr (?tr, ?ti)"
    by (rule calculate_TR_and_TI_nonneg_eq [OF assms])
  ultimately show ?thesis using tr by blast
qed


section \<open>Refinement of the reference pipeline\<close>



section \<open>The division guard\<close>

text \<open>
  C8. The divisor constant \<open>C_0_1\<close> is \<open>0.1\<close>, not zero, so for every \<open>v \<ge> 0\<close> neither
  \<open>calculate_TR\<close> nor \<open>calculate_potential_TI\<close> takes its \<open>ZeroDivisionError\<close> branch,
  and both return a value.
\<close>

theorem division_guard_unreachable:
  "0 \<le> v \<Longrightarrow>
     C_0_1 \<noteq> 0 \<and>
     calculate_TR v \<noteq> Inl ZeroDivisionError \<and>
     calculate_potential_TI v \<noteq> Inl ZeroDivisionError \<and>
     (\<exists>tr. calculate_TR v = Inr tr) \<and>
     (\<exists>ti. calculate_potential_TI v = Inr ti)"
  by (simp add: calculate_TR_nonneg_eq calculate_potential_TI_nonneg_eq C_0_1_def)

theorem division_guard_unreachable_witness:
  "(0::real) \<le> 7 \<and>
     C_0_1 \<noteq> 0 \<and>
     calculate_TR 7 \<noteq> Inl ZeroDivisionError \<and>
     calculate_potential_TI 7 \<noteq> Inl ZeroDivisionError \<and>
     (\<exists>tr. calculate_TR 7 = Inr tr) \<and>
     (\<exists>ti. calculate_potential_TI 7 = Inr ti)"
  using division_guard_unreachable [of 7] by simp

section \<open>The floor at zero\<close>

text \<open>
  C10. For every \<open>v \<ge> 0\<close> the minimum of the potential reward and the cap
  \<open>MAX_TI_FRACTION_OF_TR * tr\<close> is already non-negative, so the \<open>max 0\<close> of the source
  changes nothing: the evaluation without it equals \<open>calculate_TR_and_TI\<close> at every
  volume, negative ones included (both raise there).
\<close>

theorem floor_is_noop:
  "(0 \<le> v \<longrightarrow>
      (\<exists>tr pot. calculate_TR v = Inr tr \<and> calculate_potential_TI v = Inr pot \<and>
         0 \<le> min pot (MAX_TI_FRACTION_OF_TR * tr))) \<and>
   calculate_TR_and_TI_unfloored v = calculate_TR_and_TI v"
proof (cases "0 \<le> v")
  case True
  have "0 \<le> (1 / 100 + 2 / 100 * exp (- (v / 20000))) * v * 10"
    by (rule cost_formula_nonneg [OF True])
  then show ?thesis
    using True
    by (simp add: calculate_TR_and_TI_unfloored_def calculate_TR_and_TI_def
        calculate_TR_nonneg_eq calculate_potential_TI_nonneg_eq
        MAX_TI_FRACTION_OF_TR_def Let_def)
next
  case False
  then show ?thesis
    by (simp add: calculate_TR_and_TI_unfloored_def calculate_TR_and_TI_def)
qed

theorem floor_is_noop_witness:
  "(\<exists>tr pot. calculate_TR 2 = Inr tr \<and> calculate_potential_TI 2 = Inr pot \<and>
         0 \<le> min pot (MAX_TI_FRACTION_OF_TR * tr)) \<and>
   calculate_TR_and_TI_unfloored 2 = calculate_TR_and_TI 2"
  using floor_is_noop [of 2] by simp

section \<open>Monotonicity of the exact formulas\<close>

lemma cost_monotone_exact:
  assumes "0 \<le> v1" and "v1 \<le> v2"
  shows "\<exists>t1 t2. calculate_TR v1 = Inr t1 \<and> calculate_TR v2 = Inr t2 \<and> t1 \<le> t2"
proof -
  have v2: "0 \<le> v2" using assms by simp
  let ?c = "\<lambda>v::real. (1 / 100 + 2 / 100 * exp (- (v / 20000))) * v * 10"
  have "?c v1 \<le> ?c v2" by (rule cost_mono [OF assms(2)])
  moreover have "calculate_TR v1 = Inr (?c v1)" by (rule calculate_TR_nonneg_eq [OF assms(1)])
  moreover have "calculate_TR v2 = Inr (?c v2)" by (rule calculate_TR_nonneg_eq [OF v2])
  ultimately show ?thesis by blast
qed


lemma potential_mono:
  fixes v1 v2 :: real
  assumes "0 \<le> v1" and "v1 \<le> v2"
  shows "(1 + v1) powr (3 / 10) * 10 \<le> (1 + v2) powr (3 / 10) * 10"
proof -
  have "(1 + v1) powr (3 / 10) \<le> (1 + v2) powr (3 / 10)"
    using assms by (intro powr_mono2) simp_all
  then show ?thesis by simp
qed

lemma capped_mono:
  fixes p1 p2 c1 c2 :: real
  assumes "p1 \<le> p2" and "c1 \<le> c2"
  shows "max 0 (min p1 c1) \<le> max 0 (min p2 c2)"
  using assms by (simp add: max_def min_def)

lemma reward_monotone_exact:
  assumes "0 \<le> v1" and "v1 \<le> v2"
  shows "\<exists>tr1 ti1 tr2 ti2.
           calculate_TR_and_TI v1 = Inr (tr1, ti1) \<and>
           calculate_TR_and_TI v2 = Inr (tr2, ti2) \<and> ti1 \<le> ti2"
proof -
  have v2: "0 \<le> v2" using assms by simp
  let ?c = "\<lambda>v::real. (1 / 100 + 2 / 100 * exp (- (v / 20000))) * v * 10"
  let ?p = "\<lambda>v::real. (1 + v) powr (3 / 10) * 10"
  have "?c v1 / 3 \<le> ?c v2 / 3"
    using cost_mono [OF assms(2)] by (rule divide_right_mono) simp
  with potential_mono [OF assms]
  have "max 0 (min (?p v1) (?c v1 / 3)) \<le> max 0 (min (?p v2) (?c v2 / 3))"
    by (rule capped_mono)
  moreover have "calculate_TR_and_TI v1 = Inr (?c v1, max 0 (min (?p v1) (?c v1 / 3)))"
    by (rule calculate_TR_and_TI_nonneg_eq [OF assms(1)])
  moreover have "calculate_TR_and_TI v2 = Inr (?c v2, max 0 (min (?p v2) (?c v2 / 3)))"
    by (rule calculate_TR_and_TI_nonneg_eq [OF v2])
  ultimately show ?thesis by blast
qed

section \<open>The capping boundary\<close>

lemma evaluate_capped:
  fixes v :: real
  assumes "0 \<le> v"
    and "(1 / 100 + 2 / 100 * exp (- (v / 20000))) * v * 10 / 3 \<le> (1 + v) powr (3 / 10) * 10"
  shows "calculate_TR_and_TI v =
           Inr ((1 / 100 + 2 / 100 * exp (- (v / 20000))) * v * 10,
                (1 / 100 + 2 / 100 * exp (- (v / 20000))) * v * 10 / 3)"
proof -
  let ?c = "(1 / 100 + 2 / 100 * exp (- (v / 20000))) * v * 10"
  have "0 \<le> ?c / 3" using cost_formula_nonneg [OF assms(1)] by simp
  then have "max 0 (min ((1 + v) powr (3 / 10) * 10) (?c / 3)) = ?c / 3"
    using assms(2) by (simp add: max_def min_def)
  then show ?thesis by (simp only: calculate_TR_and_TI_nonneg_eq [OF assms(1)])
qed

lemma evaluate_uncapped:
  fixes v :: real
  assumes "0 \<le> v"
    and "(1 + v) powr (3 / 10) * 10 \<le> (1 / 100 + 2 / 100 * exp (- (v / 20000))) * v * 10 / 3"
  shows "calculate_TR_and_TI v =
           Inr ((1 / 100 + 2 / 100 * exp (- (v / 20000))) * v * 10,
                (1 + v) powr (3 / 10) * 10)"
proof -
  let ?c = "(1 / 100 + 2 / 100 * exp (- (v / 20000))) * v * 10"
  have "0 \<le> (1 + v) powr (3 / 10) * 10" by simp
  then have "max 0 (min ((1 + v) powr (3 / 10) * 10) (?c / 3)) = (1 + v) powr (3 / 10) * 10"
    using assms(2) by (simp add: max_def min_def)
  then show ?thesis by (simp only: calculate_TR_and_TI_nonneg_eq [OF assms(1)])
qed

lemma potential_at_zero: "calculate_potential_TI 0 = Inr 10"
  by (simp add: calculate_potential_TI_nonneg_eq)

lemma evaluate_at_zero: "calculate_TR_and_TI 0 = Inr (0, 0)"
  by (simp add: calculate_TR_and_TI_nonneg_eq)

lemma evaluate_at_100000:
  "\<exists>tr ti pot. calculate_TR_and_TI 100000 = Inr (tr, ti) \<and>
     calculate_potential_TI 100000 = Inr pot \<and> ti = pot \<and> ti < tr / 3"
proof -
  let ?c = "(1 / 100 + 2 / 100 * exp (- (100000 / 20000))) * 100000 * 10 :: real"
  let ?p = "(1 + 100000) powr (3 / 10) * 10 :: real"
  have p: "?p \<le> 320" using powr_3_10_100001 by simp
  have c: "(100000::real) / 30 \<le> ?c / 3" by (rule cap_ge_linear) simp
  from p c have lt: "?p < ?c / 3" by linarith
  then have "?p \<le> ?c / 3" by simp
  then have "calculate_TR_and_TI 100000 = Inr (?c, ?p)"
    by (intro evaluate_uncapped) simp_all
  moreover have "calculate_potential_TI 100000 = Inr ?p"
    by (simp add: calculate_potential_TI_nonneg_eq)
  ultimately show ?thesis using lt by blast
qed

text \<open>
  C1, as claimed: there is a threshold \<open>Vs \<ge> 0\<close> such that the reward returned by
  \<open>calculate_TR_and_TI\<close> is the potential reward for every \<open>0 \<le> v < Vs\<close> and is a third of
  the cost for every \<open>v \<ge> Vs\<close>. No such threshold exists. At \<open>v = 0\<close> the code returns
  the reward \<open>0\<close> while the potential reward is \<open>10\<close>, so a positive threshold fails at
  \<open>0\<close>; at \<open>v = 100000\<close> the code returns the potential reward, which is less than a
  third of the cost, so the threshold \<open>0\<close> fails at \<open>100000\<close>.
\<close>

theorem capping_threshold_counterexample:
  "calculate_TR_and_TI 0 = Inr (0, 0) \<and>
   calculate_potential_TI 0 = Inr 10 \<and>
   (\<exists>tr ti pot. calculate_TR_and_TI 100000 = Inr (tr, ti) \<and>
      calculate_potential_TI 100000 = Inr pot \<and> ti = pot \<and> ti < tr / 3) \<and>
   \<not> (\<exists>Vs\<ge>0.
        (\<forall>v. 0 \<le> v \<and> v < Vs \<longrightarrow>
           (\<exists>tr ti pot. calculate_TR_and_TI v = Inr (tr, ti) \<and>
              calculate_potential_TI v = Inr pot \<and> ti = pot)) \<and>
        (\<forall>v\<ge>Vs. \<exists>tr ti. calculate_TR_and_TI v = Inr (tr, ti) \<and> ti = tr / 3))"
proof (intro conjI notI)
  show "calculate_TR_and_TI 0 = Inr (0, 0)" by (rule evaluate_at_zero)
  show "calculate_potential_TI 0 = Inr 10" by (rule potential_at_zero)
  show "\<exists>tr ti pot. calculate_TR_and_TI 100000 = Inr (tr, ti) \<and>
      calculate_potential_TI 100000 = Inr pot \<and> ti = pot \<and> ti < tr / 3"
    by (rule evaluate_at_100000)
next
  assume "\<exists>Vs\<ge>0.
        (\<forall>v. 0 \<le> v \<and> v < Vs \<longrightarrow>
           (\<exists>tr ti pot. calculate_TR_and_TI v = Inr (tr, ti) \<and>
              calculate_potential_TI v = Inr pot \<and> ti = pot)) \<and>
        (\<forall>v\<ge>Vs. \<exists>tr ti. calculate_TR_and_TI v = Inr (tr, ti) \<and> ti = tr / 3)"
  then obtain Vs :: real where Vs: "0 \<le> Vs"
    and below: "\<And>v. 0 \<le> v \<Longrightarrow> v < Vs \<Longrightarrow>
           \<exists>tr ti pot. calculate_TR_and_TI v = Inr (tr, ti) \<and>
              calculate_potential_TI v = Inr pot \<and> ti = pot"
    and above: "\<And>v. Vs \<le> v \<Longrightarrow> \<exists>tr ti. calculate_TR_and_TI v = Inr (tr, ti) \<and> ti = tr / 3"
    by blast
  show False
  proof (cases "0 < Vs")
    case True
    from below [of 0] True
    obtain tr ti pot where "calculate_TR_and_TI 0 = Inr (tr, ti)"
      and "calculate_potential_TI 0 = Inr pot" and "ti = pot"
      by auto
    then show False by (simp add: evaluate_at_zero potential_at_zero)
  next
    case False
    then have "Vs \<le> 100000" using Vs by simp
    from above [OF this]
    obtain tr ti where a: "calculate_TR_and_TI 100000 = Inr (tr, ti)" and b: "ti = tr / 3"
      by blast
    from evaluate_at_100000
    obtain tr' ti' where a': "calculate_TR_and_TI 100000 = Inr (tr', ti')" and b': "ti' < tr' / 3"
      by blast
    from a a' have "tr' = tr" and "ti' = ti" by simp_all
    with b b' show False by simp
  qed
qed

lemma capping_threshold_exact:
  "\<exists>Vs. 390 \<le> Vs \<and> Vs \<le> 100000 \<and>
     (\<forall>v. 0 \<le> v \<and> v < Vs \<longrightarrow>
        (\<exists>tr ti. calculate_TR_and_TI v = Inr (tr, ti) \<and> ti = tr / 3)) \<and>
     (\<forall>v\<ge>Vs. \<exists>tr ti pot. calculate_TR_and_TI v = Inr (tr, ti) \<and>
        calculate_potential_TI v = Inr pot \<and> ti = pot)"
proof -
  let ?c = "\<lambda>v::real. (1 / 100 + 2 / 100 * exp (- (v / 20000))) * v * 10"
  let ?p = "\<lambda>v::real. (1 + v) powr (3 / 10) * 10"
  from crossover_exists obtain c :: real
    where c1: "390 \<le> c" and c2: "c \<le> 100000" and eq: "?p c = ?c c / 3"
    by blast
  have low: "\<exists>tr ti. calculate_TR_and_TI v = Inr (tr, ti) \<and> ti = tr / 3"
    if "0 \<le> v" and "v < c" for v
  proof -
    have "?c v / 3 \<le> ?p v"
    proof (cases "v \<le> 390")
      case True
      then show ?thesis by (rule gap_nonneg_low [OF that(1)])
    next
      case False
      then have "390 \<le> v" by simp
      moreover have "v \<le> c" using that(2) by simp
      ultimately have "?p c - ?c c / 3 \<le> ?p v - ?c v / 3" by (rule gap_nonincreasing)
      then show ?thesis using eq by simp
    qed
    with that(1) have "calculate_TR_and_TI v = Inr (?c v, ?c v / 3)"
      by (rule evaluate_capped)
    then show ?thesis by blast
  qed
  have high: "\<exists>tr ti pot. calculate_TR_and_TI v = Inr (tr, ti) \<and>
        calculate_potential_TI v = Inr pot \<and> ti = pot"
    if "c \<le> v" for v
  proof -
    have v: "0 \<le> v" using c1 that by simp
    have "?p v - ?c v / 3 \<le> ?p c - ?c c / 3" using c1 that by (rule gap_nonincreasing)
    then have "?p v \<le> ?c v / 3" using eq by simp
    with v have "calculate_TR_and_TI v = Inr (?c v, ?p v)"
      by (rule evaluate_uncapped)
    moreover have "calculate_potential_TI v = Inr (?p v)"
      by (rule calculate_potential_TI_nonneg_eq [OF v])
    ultimately show ?thesis by blast
  qed
  from c1 c2 low high show ?thesis by blast
qed

section \<open>Properties of the rounding\<close>

subsection \<open>Rounding to an integer and to a double\<close>

lemma round_half_even_of_int [simp]: "round_half_even (of_int n) = n"
  by (simp add: round_half_even_def)

lemma round_half_even_between:
  "\<lfloor>x\<rfloor> \<le> round_half_even x \<and> round_half_even x \<le> \<lfloor>x\<rfloor> + 1"
  by (simp add: round_half_even_def Let_def)

lemma round_half_even_mono:
  assumes "x \<le> y"
  shows "round_half_even x \<le> round_half_even y"
proof (cases "\<lfloor>x\<rfloor> = \<lfloor>y\<rfloor>")
  case True
  then show ?thesis using assms by (auto simp: round_half_even_def Let_def)
next
  case False
  then have "\<lfloor>x\<rfloor> + 1 \<le> \<lfloor>y\<rfloor>" using floor_mono [OF assms] by simp
  then show ?thesis
    using round_half_even_between [of x] round_half_even_between [of y] by linarith
qed

lemma round_half_even_near:
  assumes "of_int n \<le> x" and "x < of_int n + 1 / 2"
  shows "round_half_even x = n"
proof -
  have "\<lfloor>x\<rfloor> = n" using assms by (intro floor_unique) simp_all
  then show ?thesis using assms by (simp add: round_half_even_def)
qed

lemma quantum_pos [simp]: "0 < quantum x"
  by (simp add: quantum_def)

lemma quantum_nonneg [simp]: "0 \<le> quantum x"
  by (simp add: quantum_def)

lemma quantum_nonzero [simp]: "quantum x \<noteq> 0"
  by (simp add: quantum_def)

lemma quantum_not_le_zero [simp]: "\<not> quantum x \<le> 0"
  using quantum_pos [of x] by linarith

lemma quantum_eq:
  assumes "2 powr of_int e \<le> \<bar>x\<bar>" and "\<bar>x\<bar> < 2 powr of_int (e + 1)" and "- 1022 \<le> e"
  shows "quantum x = 2 powr of_int (e - 52)"
proof -
  have "(0::real) < 2 powr of_int e" by simp
  with assms(1) have "0 < \<bar>x\<bar>" by linarith
  then have "\<lfloor>log 2 \<bar>x\<bar>\<rfloor> = e"
    using assms(1,2) by (subst floor_log_eq_powr_iff) simp_all
  then show ?thesis using assms(3) by (simp add: quantum_def)
qed

lemma round_double_nonneg:
  assumes "0 \<le> x"
  shows "0 \<le> round_double x"
proof -
  have "0 \<le> x / quantum x" using assms by simp
  then have "round_half_even 0 \<le> round_half_even (x / quantum x)"
    by (rule round_half_even_mono)
  then have "0 \<le> round_half_even (x / quantum x)"
    using round_half_even_of_int [of 0] by simp
  then show ?thesis by (simp add: round_double_def)
qed

lemma round_double_nonpos:
  assumes "x \<le> 0"
  shows "round_double x \<le> 0"
proof -
  have "x / quantum x \<le> 0" using assms by (simp add: divide_nonpos_pos)
  then have "round_half_even (x / quantum x) \<le> round_half_even 0"
    by (rule round_half_even_mono)
  then have "round_half_even (x / quantum x) \<le> 0"
    using round_half_even_of_int [of 0] by simp
  then show ?thesis by (simp add: round_double_def mult_le_0_iff)
qed

lemma round_double_exact:
  assumes "x / quantum x = of_int m"
  shows "round_double x = x"
proof (cases "x = 0")
  case True
  then show ?thesis by (simp add: round_double_def)
next
  case False
  have "of_int (round_half_even (x / quantum x)) * quantum x = of_int m * quantum x"
    by (simp add: assms)
  also have "\<dots> = x / quantum x * quantum x" by (simp add: assms)
  also have "\<dots> = x" by simp
  finally show ?thesis using False by (simp add: round_double_def)
qed

subsection \<open>Rounding is monotone on non-negative reals\<close>

lemma round_double_le_grid:
  assumes "x \<le> z" and "z / quantum x = of_int m"
  shows "round_double x \<le> z"
proof (cases "x = 0")
  case True
  then show ?thesis using assms(1) by (simp add: round_double_def)
next
  case False
  have "x / quantum x \<le> z / quantum x"
    using assms(1) by (intro divide_right_mono) simp_all
  then have "round_half_even (x / quantum x) \<le> round_half_even (of_int m)"
    unfolding assms(2) by (rule round_half_even_mono)
  then have "round_half_even (x / quantum x) \<le> m" by simp
  then have "(of_int (round_half_even (x / quantum x)) :: real) \<le> of_int m" by simp
  then have "of_int (round_half_even (x / quantum x)) * quantum x \<le> of_int m * quantum x"
    by (intro mult_right_mono) simp_all
  also have "of_int m * quantum x = z / quantum x * quantum x" by (simp add: assms(2))
  also have "\<dots> = z" by simp
  finally show ?thesis using False by (simp add: round_double_def)
qed

lemma round_double_ge_grid:
  assumes "z \<le> x" and "z / quantum x = of_int m"
  shows "z \<le> round_double x"
proof (cases "x = 0")
  case True
  then show ?thesis using assms(1) by (simp add: round_double_def)
next
  case False
  have "z / quantum x \<le> x / quantum x"
    using assms(1) by (intro divide_right_mono) simp_all
  then have "round_half_even (of_int m) \<le> round_half_even (x / quantum x)"
    unfolding assms(2) by (rule round_half_even_mono)
  then have "m \<le> round_half_even (x / quantum x)" by simp
  then have "(of_int m :: real) \<le> of_int (round_half_even (x / quantum x))" by simp
  then have "of_int m * quantum x \<le> of_int (round_half_even (x / quantum x)) * quantum x"
    by (intro mult_right_mono) simp_all
  moreover have "of_int m * quantum x = z / quantum x * quantum x" by (simp add: assms(2))
  moreover have "z / quantum x * quantum x = z" by simp
  ultimately show ?thesis using False by (simp add: round_double_def)
qed

lemma two_powr_int_ratio:
  assumes "j \<le> k"
  shows "2 powr of_int k / 2 powr of_int j = (of_int (2 ^ nat (k - j)) :: real)"
proof -
  have "2 powr of_int k / 2 powr of_int j = (2::real) powr (of_int k - of_int j)"
    by (simp add: powr_diff)
  also have "\<dots> = 2 powr of_int (k - j)" by simp
  also have "\<dots> = 2 powr real (nat (k - j))" using assms by simp
  also have "\<dots> = 2 ^ nat (k - j)" by (subst powr_realpow) simp_all
  finally show ?thesis by simp
qed

lemma floor_log2_le:
  fixes x :: real
  assumes "0 < x" and "x \<le> 2 powr of_int k"
  shows "\<lfloor>log 2 x\<rfloor> \<le> k"
proof -
  have "log 2 x \<le> of_int k" using assms by (simp add: log_le_iff)
  then have "\<lfloor>log 2 x\<rfloor> \<le> \<lfloor>(of_int k :: real)\<rfloor>" by (rule floor_mono)
  then show ?thesis by simp
qed

lemma two_powr_floor_log2_le:
  fixes x :: real
  assumes "0 < x"
  shows "2 powr of_int \<lfloor>log 2 x\<rfloor> \<le> x"
  using assms floor_log_eq_powr_iff [of x 2 "\<lfloor>log 2 x\<rfloor>"] by simp

lemma less_two_powr_floor_log2:
  fixes x :: real
  assumes "0 < x"
  shows "x < 2 powr of_int (\<lfloor>log 2 x\<rfloor> + 1)"
  using assms floor_log_eq_powr_iff [of x 2 "\<lfloor>log 2 x\<rfloor>"] by simp

lemma round_double_le_two_powr:
  assumes "0 < x" and "x \<le> 2 powr of_int k" and "- 1074 \<le> k"
  shows "round_double x \<le> 2 powr of_int k"
proof -
  define e where "e = max \<lfloor>log 2 \<bar>x\<bar>\<rfloor> (- 1022) - 52"
  have q: "quantum x = 2 powr of_int e" by (simp add: quantum_def e_def)
  have "\<lfloor>log 2 \<bar>x\<bar>\<rfloor> \<le> k" using assms(1,2) by (simp add: floor_log2_le)
  then have "e \<le> k" using assms(3) by (simp add: e_def)
  then have "2 powr of_int k / quantum x = of_int (2 ^ nat (k - e))"
    unfolding q by (rule two_powr_int_ratio)
  with assms(2) show ?thesis by (rule round_double_le_grid)
qed

lemma two_powr_floor_log2_le_round_double:
  assumes "0 < x" and "- 1022 \<le> \<lfloor>log 2 x\<rfloor>"
  shows "2 powr of_int \<lfloor>log 2 x\<rfloor> \<le> round_double x"
proof -
  have q: "quantum x = 2 powr of_int (\<lfloor>log 2 x\<rfloor> - 52)"
    using assms by (simp add: quantum_def)
  have "2 powr of_int \<lfloor>log 2 x\<rfloor> / quantum x = of_int (2 ^ nat (\<lfloor>log 2 x\<rfloor> - (\<lfloor>log 2 x\<rfloor> - 52)))"
    unfolding q by (rule two_powr_int_ratio) simp
  with two_powr_floor_log2_le [OF assms(1)] show ?thesis by (rule round_double_ge_grid)
qed

lemma round_double_mono:
  assumes "0 \<le> x" and "x \<le> y"
  shows "round_double x \<le> round_double y"
proof (cases "x = 0")
  case True
  then show ?thesis using assms round_double_nonneg [of y] by (simp add: round_double_def)
next
  case False
  then have x: "0 < x" and y: "0 < y" using assms by simp_all
  define ex where "ex = max \<lfloor>log 2 x\<rfloor> (- 1022)"
  define ey where "ey = max \<lfloor>log 2 y\<rfloor> (- 1022)"
  have qx: "quantum x = 2 powr of_int (ex - 52)" using x by (simp add: quantum_def ex_def)
  have qy: "quantum y = 2 powr of_int (ey - 52)" using y by (simp add: quantum_def ey_def)
  have "log 2 x \<le> log 2 y" using x assms(2) by simp
  then have "\<lfloor>log 2 x\<rfloor> \<le> \<lfloor>log 2 y\<rfloor>" by (rule floor_mono)
  then have le: "ex \<le> ey" by (simp add: ex_def ey_def)
  show ?thesis
  proof (cases "ex = ey")
    case True
    then have q: "quantum y = quantum x" by (simp add: qx qy)
    have "x / quantum x \<le> y / quantum x"
      using assms(2) by (intro divide_right_mono) simp_all
    then have "round_half_even (x / quantum x) \<le> round_half_even (y / quantum x)"
      by (rule round_half_even_mono)
    then have "(of_int (round_half_even (x / quantum x)) :: real)
        \<le> of_int (round_half_even (y / quantum x))"
      by simp
    then have "of_int (round_half_even (x / quantum x)) * quantum x
        \<le> of_int (round_half_even (y / quantum x)) * quantum x"
      by (intro mult_right_mono) simp_all
    then show ?thesis using x y by (simp add: round_double_def q)
  next
    case False
    then have lt: "ex + 1 \<le> ey" using le by simp
    then have ey: "ey = \<lfloor>log 2 y\<rfloor>" and normal: "- 1022 \<le> \<lfloor>log 2 y\<rfloor>"
      unfolding ex_def ey_def by linarith+
    have "\<lfloor>log 2 x\<rfloor> + 1 \<le> ex + 1" by (simp add: ex_def)
    then have "(2::real) powr of_int (\<lfloor>log 2 x\<rfloor> + 1) \<le> 2 powr of_int (ex + 1)"
      by simp
    with less_two_powr_floor_log2 [OF x] have "x \<le> 2 powr of_int (ex + 1)" by linarith
    moreover have "- 1074 \<le> ex + 1" by (simp add: ex_def)
    ultimately have "round_double x \<le> 2 powr of_int (ex + 1)"
      using x by (intro round_double_le_two_powr)
    also have "\<dots> \<le> 2 powr of_int ey" using lt by simp
    also have "\<dots> \<le> round_double y"
      unfolding ey using y normal by (rule two_powr_floor_log2_le_round_double)
    finally show ?thesis .
  qed
qed

subsection \<open>The doubles of the constants\<close>

lemma quantum_numeral_eq:
  assumes "2 powr of_int e \<le> \<bar>x\<bar>" and "\<bar>x\<bar> < 2 powr of_int (e + 1)" and "- 1022 \<le> e"
    and "e - 52 = - int n"
  shows "quantum x = 1 / 2 ^ n"
proof -
  have "quantum x = 2 powr of_int (e - 52)" using assms(1-3) by (rule quantum_eq)
  also have "\<dots> = 2 powr (- real n)" using assms(4) by simp
  also have "\<dots> = 1 / 2 powr real n" by (rule powr_minus_divide)
  also have "\<dots> = 1 / 2 ^ n" by (subst powr_realpow) simp_all
  finally show ?thesis .
qed

lemma round_half_even_up:
  assumes "of_int n - 1 / 2 < x" and "x \<le> of_int n"
  shows "round_half_even x = n"
proof (cases "x = of_int n")
  case True
  then show ?thesis by simp
next
  case False
  then have "x < of_int n" using assms(2) by simp
  then have "\<lfloor>x\<rfloor> = n - 1" using assms(1) by (intro floor_unique) simp_all
  then show ?thesis using assms(1) by (simp add: round_half_even_def)
qed

lemma round_double_eq:
  assumes "quantum x = q" and "round_half_even (x / q) = m" and "x \<noteq> 0"
  shows "round_double x = of_int m * q"
  using assms by (simp add: round_double_def)

lemma double_C_0_01: "round_double C_0_01 = 5764607523034235 / 2 ^ 59"
proof -
  have q: "quantum C_0_01 = 1 / 2 ^ 59"
    unfolding C_0_01_def
    by (rule quantum_numeral_eq [where e = "- 7"]) (simp_all add: powr_minus_divide)
  have m: "round_half_even (C_0_01 / (1 / 2 ^ 59)) = 5764607523034235"
    unfolding C_0_01_def by (rule round_half_even_up) simp_all
  have "C_0_01 \<noteq> 0" by (simp add: C_0_01_def)
  from round_double_eq [OF q m this] show ?thesis by simp
qed

lemma double_C_0_02: "round_double C_0_02 = 5764607523034235 / 2 ^ 58"
proof -
  have q: "quantum C_0_02 = 1 / 2 ^ 58"
    unfolding C_0_02_def
    by (rule quantum_numeral_eq [where e = "- 6"]) (simp_all add: powr_minus_divide)
  have m: "round_half_even (C_0_02 / (1 / 2 ^ 58)) = 5764607523034235"
    unfolding C_0_02_def by (rule round_half_even_up) simp_all
  have "C_0_02 \<noteq> 0" by (simp add: C_0_02_def)
  from round_double_eq [OF q m this] show ?thesis by simp
qed

lemma double_C_NEG_0_00005: "round_double C_NEG_0_00005 = - (7378697629483821 / 2 ^ 67)"
proof -
  have q: "quantum C_NEG_0_00005 = 1 / 2 ^ 67"
    unfolding C_NEG_0_00005_def
    by (rule quantum_numeral_eq [where e = "- 15"]) (simp_all add: powr_minus_divide)
  have m: "round_half_even (C_NEG_0_00005 / (1 / 2 ^ 67)) = - 7378697629483821"
    unfolding C_NEG_0_00005_def by (rule round_half_even_near) simp_all
  have "C_NEG_0_00005 \<noteq> 0" by (simp add: C_NEG_0_00005_def)
  from round_double_eq [OF q m this] show ?thesis by simp
qed

lemma double_exponent_arg:
  "round_double (round_double C_NEG_0_00005 * 1000000) = - 50"
proof -
  let ?x = "- (7378697629483821 / 2 ^ 67) * 1000000 :: real"
  have q: "quantum ?x = 1 / 2 ^ 47"
    by (rule quantum_numeral_eq [where e = 5]) (simp_all add: powr_minus_divide)
  have m: "round_half_even (?x / (1 / 2 ^ 47)) = - 7036874417766400"
    by (rule round_half_even_up) simp_all
  have "?x \<noteq> 0" by simp
  from round_double_eq [OF q m this] show ?thesis
    unfolding double_C_NEG_0_00005 by simp
qed

subsection \<open>The unit factor in double precision\<close>

lemma round_double_C_0_01_fixed: "round_double (round_double C_0_01) = round_double C_0_01"
proof -
  let ?c = "5764607523034235 / 2 ^ 59 :: real"
  have q: "quantum ?c = 1 / 2 ^ 59"
    by (rule quantum_numeral_eq [where e = "- 7"]) (simp_all add: powr_minus_divide)
  have "?c / quantum ?c = of_int 5764607523034235" unfolding q by simp
  then have "round_double ?c = ?c" by (rule round_double_exact)
  then show ?thesis by (simp only: double_C_0_01)
qed

lemma round_double_C_0_02_fixed: "round_double (round_double C_0_02) = round_double C_0_02"
proof -
  let ?c = "5764607523034235 / 2 ^ 58 :: real"
  have q: "quantum ?c = 1 / 2 ^ 58"
    by (rule quantum_numeral_eq [where e = "- 6"]) (simp_all add: powr_minus_divide)
  have "?c / quantum ?c = of_int 5764607523034235" unfolding q by simp
  then have "round_double ?c = ?c" by (rule round_double_exact)
  then show ?thesis by (simp only: double_C_0_02)
qed

lemma round_double_one: "round_double 1 = 1"
proof -
  have q: "quantum 1 = 1 / 2 ^ 52"
    by (rule quantum_numeral_eq [where e = 0]) simp_all
  have "1 / quantum 1 = of_int (2 ^ 52)" unfolding q by simp
  then show ?thesis by (rule round_double_exact)
qed

lemma round_double_zero: "round_double 0 = 0"
  by (simp add: round_double_def)

lemma double_C_0_01_pos: "0 \<le> round_double C_0_01"
  by (simp add: double_C_0_01)

lemma double_C_0_02_pos: "0 \<le> round_double C_0_02"
  by (simp add: double_C_0_02)

lemma double_C_NEG_0_00005_neg: "round_double C_NEG_0_00005 \<le> 0"
  by (simp add: double_C_NEG_0_00005)

text \<open>
  Once the exponential is at most \<open>1 / 2 ^ 60\<close>, its product with \<open>0.02\<close> is less than half
  a unit in the last place of \<open>0.01\<close>, and the sum rounds back to \<open>0.01\<close>.
\<close>

lemma small_term_absorbed:
  assumes "0 \<le> E" and "E \<le> 1 / 2 ^ 60"
  shows "round_double (round_double C_0_01 + round_double (round_double C_0_02 * E))
           = round_double C_0_01"
proof -
  let ?c1 = "5764607523034235 / 2 ^ 59 :: real"
  let ?c2 = "5764607523034235 / 2 ^ 58 :: real"
  define t where "t = round_double (?c2 * E)"
  have t0: "0 \<le> t" unfolding t_def using assms(1) by (intro round_double_nonneg) simp
  have t1: "t \<le> 1 / 2 ^ 65"
  proof (cases "?c2 * E = 0")
    case True
    then show ?thesis by (simp add: t_def round_double_zero)
  next
    case False
    then have pos: "0 < ?c2 * E" using assms(1) by (simp add: less_le)
    have "?c2 * E \<le> ?c2 * (1 / 2 ^ 60)" using assms(2) by (intro mult_left_mono) simp_all
    also have "\<dots> \<le> 1 / 2 ^ 65" by simp
    finally have "?c2 * E \<le> 2 powr of_int (- 65)" by (simp add: powr_minus_divide)
    with pos have "round_double (?c2 * E) \<le> 2 powr of_int (- 65)"
      by (rule round_double_le_two_powr) simp
    then show ?thesis by (simp add: t_def powr_minus_divide)
  qed
  have q: "quantum (?c1 + t) = 1 / 2 ^ 59"
  proof (rule quantum_numeral_eq [where e = "- 7"])
    show "2 powr of_int (- 7) \<le> \<bar>?c1 + t\<bar>" using t0 by (simp add: powr_minus_divide)
    show "\<bar>?c1 + t\<bar> < 2 powr of_int (- 7 + 1)" using t0 t1 by (simp add: powr_minus_divide)
  qed simp_all
  have m: "round_half_even ((?c1 + t) / (1 / 2 ^ 59)) = 5764607523034235"
  proof (rule round_half_even_near)
    show "of_int 5764607523034235 \<le> (?c1 + t) / (1 / 2 ^ 59)" using t0 by simp
    show "(?c1 + t) / (1 / 2 ^ 59) < of_int 5764607523034235 + 1 / 2" using t1 by simp
  qed
  have "?c1 + t \<noteq> 0" using t0 by simp
  from round_double_eq [OF q m this] have "round_double (?c1 + t) = ?c1" by simp
  then show ?thesis by (simp only: double_C_0_01 double_C_0_02 t_def)
qed

lemma exp_50_lower: "2 ^ 60 \<le> exp (50::real)"
proof -
  have "1 + 1 + (1::real)\<^sup>2 / 2 \<le> exp 1"
    using exp_lower_Taylor_quadratic [of "1::real"] by simp
  then have e: "5 / 2 \<le> exp (1::real)" by simp
  have "(2::real) ^ 60 \<le> (5 / 2) ^ 50" by (simp add: power_divide)
  also have "\<dots> \<le> exp (1::real) ^ 50" using e by (intro power_mono) simp_all
  also have "\<dots> = exp (of_nat 50 * (1::real))" by (simp only: exp_of_nat_mult)
  finally show ?thesis by simp
qed

lemma exp_minus_50_upper: "exp (- 50 :: real) \<le> 1 / 2 ^ 60"
proof -
  have "exp (- 50 :: real) = 1 / exp 50" by (simp add: exp_minus inverse_eq_divide)
  also have "\<dots> \<le> 1 / 2 ^ 60" using exp_50_lower by (intro divide_left_mono) simp_all
  finally show ?thesis .
qed

lemma exp_double_minus_50: "0 \<le> exp_double (- 50) \<and> exp_double (- 50) \<le> 1 / 2 ^ 60"
proof
  show "0 \<le> exp_double (- 50)" unfolding exp_double_def by (intro round_double_nonneg) simp
  have "exp (- 50 :: real) \<le> 2 powr of_int (- 60)"
    using exp_minus_50_upper by (simp add: powr_minus_divide)
  then have "round_double (exp (- 50)) \<le> 2 powr of_int (- 60)"
    by (intro round_double_le_two_powr) simp_all
  then show "exp_double (- 50) \<le> 1 / 2 ^ 60" by (simp add: exp_double_def powr_minus_divide)
qed

lemma exp_double_unit_interval:
  assumes "x \<le> 0"
  shows "0 \<le> exp_double x \<and> exp_double x \<le> 1"
proof
  show "0 \<le> exp_double x" unfolding exp_double_def by (intro round_double_nonneg) simp
  have "round_double (exp x) \<le> round_double 1" using assms by (intro round_double_mono) simp_all
  then show "exp_double x \<le> 1" by (simp add: exp_double_def round_double_one)
qed

lemma exp_double_zero: "exp_double 0 = 1"
  by (simp add: exp_double_def round_double_one)

lemma F_double_large_volume:
  assumes "0 \<le> np_exp (- 50)" and "np_exp (- 50) \<le> 1 / 2 ^ 60"
  shows "F_double np_exp 1000000 = Inr (round_double C_0_01)"
  using small_term_absorbed [OF assms] by (simp add: F_double_def double_exponent_arg)

lemma F_double_range:
  assumes "0 \<le> v" and unit: "\<And>x. x \<le> 0 \<Longrightarrow> 0 \<le> np_exp x \<and> np_exp x \<le> 1"
  shows "\<exists>f. F_double np_exp v = Inr f \<and> round_double C_0_01 \<le> f \<and>
           f \<le> round_double (round_double C_0_01 + round_double C_0_02)"
proof -
  define y where "y = round_double (round_double C_NEG_0_00005 * v)"
  define t where "t = round_double (round_double C_0_02 * np_exp y)"
  have "round_double C_NEG_0_00005 * v \<le> 0"
    using assms(1) double_C_NEG_0_00005_neg by (simp add: mult_le_0_iff)
  then have "y \<le> 0" unfolding y_def by (rule round_double_nonpos)
  then have E: "0 \<le> np_exp y" "np_exp y \<le> 1" using unit by simp_all
  have p0: "0 \<le> round_double C_0_02 * np_exp y" using E(1) double_C_0_02_pos by simp
  have p1: "round_double C_0_02 * np_exp y \<le> round_double C_0_02"
    using E(2) double_C_0_02_pos by (simp add: mult_left_le)
  have t0: "0 \<le> t" unfolding t_def using p0 by (rule round_double_nonneg)
  have "t \<le> round_double (round_double C_0_02)"
    unfolding t_def using p0 p1 by (rule round_double_mono)
  then have t1: "t \<le> round_double C_0_02" by (simp only: round_double_C_0_02_fixed)
  have "round_double (round_double C_0_01) \<le> round_double (round_double C_0_01 + t)"
    using double_C_0_01_pos t0 by (intro round_double_mono) simp_all
  then have lower: "round_double C_0_01 \<le> round_double (round_double C_0_01 + t)"
    by (simp only: round_double_C_0_01_fixed)
  have upper: "round_double (round_double C_0_01 + t)
      \<le> round_double (round_double C_0_01 + round_double C_0_02)"
    using double_C_0_01_pos t0 t1 by (intro round_double_mono) simp_all
  have "F_double np_exp v = Inr (round_double (round_double C_0_01 + t))"
    using assms(1) by (simp add: F_double_def t_def y_def)
  with lower upper show ?thesis by blast
qed

lemma F_double_zero:
  assumes "np_exp 0 = 1"
  shows "F_double np_exp 0 = Inr (round_double (round_double C_0_01 + round_double C_0_02))"
  using assms by (simp add: F_double_def round_double_zero round_double_C_0_02_fixed)

section \<open>Range of the unit factor\<close>

lemma F_exact_range:
  assumes "0 \<le> v"
  shows "\<exists>f. F v = Inr f \<and> C_0_01 < f \<and> f \<le> C_0_01 + C_0_02 \<and>
           (f = C_0_01 + C_0_02 \<longleftrightarrow> v = 0)"
proof -
  let ?f = "1 / 100 + 2 / 100 * exp (- (v / 20000))"
  have "exp (- (v / 20000)) \<le> 1" using assms by simp
  moreover have "exp (- (v / 20000)) = 1 \<longleftrightarrow> v = 0" by simp
  ultimately have "1 / 100 < ?f \<and> ?f \<le> 1 / 100 + 2 / 100 \<and>
      (?f = 1 / 100 + 2 / 100 \<longleftrightarrow> v = 0)"
    by simp
  then show ?thesis
    by (simp only: F_nonneg_eq [OF assms] C_0_01_def C_0_02_def) simp
qed

text \<open>
  C7, as claimed: for every \<open>v \<ge> 0\<close> the unit factor is strictly greater than \<open>C_0_01\<close>.
  That holds for the exact formula, but the code computes in doubles: at
  \<open>v = 1000000\<close> the argument of the exponential rounds to \<open>-50\<close>, the exponential is
  at most \<open>1 / 2 ^ 60\<close>, its product with \<open>0.02\<close> is less than half a unit in the last place of
  \<open>0.01\<close>, and the sum rounds back to \<open>0.01\<close>: the code returns \<open>C_0_01\<close> itself.
\<close>

theorem unit_factor_range_counterexample:
  "F_double exp_double 1000000 = Inr (round_double C_0_01)"
  using exp_double_minus_50 by (intro F_double_large_volume) simp_all

text \<open>
  C7, as amended: for every \<open>v \<ge> 0\<close> the unit factor computed in doubles lies in the
  closed range from \<open>C_0_01\<close> to \<open>C_0_01 + C_0_02\<close> (the doubles of these constants and
  their rounded sum), whatever implementation of the exponential is used, as long as it
  returns values between \<open>0\<close> and \<open>1\<close> on non-positive arguments; the upper bound is
  attained at \<open>v = 0\<close> when that implementation returns \<open>1\<close> at \<open>0\<close>. For the exact
  formula the lower bound is strict and the upper bound is attained at \<open>v = 0\<close> only.
\<close>

theorem unit_factor_range:
  assumes "0 \<le> v"
    and "\<And>x. x \<le> 0 \<Longrightarrow> 0 \<le> np_exp x \<and> np_exp x \<le> 1"
    and "np_exp 0 = 1"
  shows "(\<exists>f. F_double np_exp v = Inr f \<and> round_double C_0_01 \<le> f \<and>
            f \<le> round_double (round_double C_0_01 + round_double C_0_02)) \<and>
         F_double np_exp 0 = Inr (round_double (round_double C_0_01 + round_double C_0_02)) \<and>
         (\<exists>f. F v = Inr f \<and> C_0_01 < f \<and> f \<le> C_0_01 + C_0_02 \<and>
            (f = C_0_01 + C_0_02 \<longleftrightarrow> v = 0))"
proof (intro conjI)
  show "\<exists>f. F_double np_exp v = Inr f \<and> round_double C_0_01 \<le> f \<and>
            f \<le> round_double (round_double C_0_01 + round_double C_0_02)"
    using assms(1,2) by (rule F_double_range)
  show "F_double np_exp 0 = Inr (round_double (round_double C_0_01 + round_double C_0_02))"
    using assms(3) by (rule F_double_zero)
  show "\<exists>f. F v = Inr f \<and> C_0_01 < f \<and> f \<le> C_0_01 + C_0_02 \<and>
            (f = C_0_01 + C_0_02 \<longleftrightarrow> v = 0)"
    using assms(1) by (rule F_exact_range)
qed

theorem unit_factor_range_witness:
  "(\<exists>f. F_double exp_double 2 = Inr f \<and> round_double C_0_01 \<le> f \<and>
      f \<le> round_double (round_double C_0_01 + round_double C_0_02)) \<and>
   F_double exp_double 0 = Inr (round_double (round_double C_0_01 + round_double C_0_02)) \<and>
   (\<exists>f. F 2 = Inr f \<and> C_0_01 < f \<and> f \<le> C_0_01 + C_0_02 \<and>
      (f = C_0_01 + C_0_02 \<longleftrightarrow> (2::real) = 0))"
  using unit_factor_range [of 2 exp_double, OF _ exp_double_unit_interval exp_double_zero]
  by simp

section \<open>Tools for evaluating and bounding the double-precision functions\<close>

subsection \<open>Rounding of a given real, Taylor bounds, the doubles of the other constants\<close>

lemma round_half_even_strict:
  assumes "of_int m - 1 / 2 < x" and "x < of_int m + 1 / 2"
  shows "round_half_even x = m"
proof (cases "of_int m \<le> x")
  case True
  then show ?thesis using assms(2) by (rule round_half_even_near)
next
  case False
  then have "x \<le> of_int m" by simp
  with assms(1) show ?thesis by (rule round_half_even_up)
qed

lemma round_half_even_tie:
  assumes "x = of_int n + 1 / 2"
  shows "round_half_even x = (if even n then n else n + 1)"
proof -
  have "\<lfloor>x\<rfloor> = n" unfolding assms by (intro floor_unique) simp_all
  then show ?thesis by (simp add: round_half_even_def assms)
qed

lemma exp_taylor_6:
  fixes y :: real
  assumes "\<bar>y\<bar> \<le> 1"
  shows "1 + y + y ^ 2 / 2 + y ^ 3 / 6 + y ^ 4 / 24 + y ^ 5 / 120 \<le> exp y"
    and "exp y \<le> 1 + y + y ^ 2 / 2 + y ^ 3 / 6 + y ^ 4 / 24 + y ^ 5 / 120 + y ^ 6 / 240"
proof -
  obtain t where t: "\<bar>t\<bar> \<le> \<bar>y\<bar>"
    and e: "exp y = (\<Sum>m<6. y ^ m / fact m) + exp t / fact 6 * y ^ 6"
    using Maclaurin_exp_le [of y 6] by blast
  have sum: "(\<Sum>m<6. y ^ m / fact m)
      = 1 + y + y ^ 2 / 2 + y ^ 3 / 6 + y ^ 4 / 24 + y ^ 5 / 120"
    by (simp add: eval_nat_numeral lessThan_Suc fact_numeral)
  have "exp t \<le> exp 1" using t assms by simp
  then have e3: "exp t \<le> 3" using exp_le by linarith
  have y6: "0 \<le> y ^ 6" by simp
  have "0 \<le> exp t / fact 6 * y ^ 6" using y6 by simp
  then show "1 + y + y ^ 2 / 2 + y ^ 3 / 6 + y ^ 4 / 24 + y ^ 5 / 120 \<le> exp y"
    unfolding e sum by simp
  have "exp t * y ^ 6 \<le> 3 * y ^ 6" using e3 y6 by (rule mult_right_mono)
  then have "exp t / fact 6 * y ^ 6 \<le> y ^ 6 / 240" by (simp add: fact_numeral)
  then show "exp y \<le> 1 + y + y ^ 2 / 2 + y ^ 3 / 6 + y ^ 4 / 24 + y ^ 5 / 120 + y ^ 6 / 240"
    unfolding e sum by simp
qed

lemma round_double_strict:
  assumes "quantum x = 1 / 2 ^ n"
    and "of_int m - 1 / 2 < x * 2 ^ n" and "x * 2 ^ n < of_int m + 1 / 2"
  shows "round_double x = of_int m / 2 ^ n"
proof (cases "x = 0")
  case True
  then have "m = 0" using assms(2,3) by simp
  then show ?thesis using True by (simp add: round_double_def)
next
  case False
  have "x / (1 / 2 ^ n) = x * 2 ^ n" by simp
  then have "round_half_even (x / (1 / 2 ^ n)) = m"
    using assms(2,3) by (simp only: round_half_even_strict)
  from round_double_eq [OF assms(1) this False] show ?thesis by simp
qed

lemma round_double_tie:
  assumes "quantum x = 1 / 2 ^ n" and "x * 2 ^ n = of_int k + 1 / 2"
  shows "round_double x = of_int (if even k then k else k + 1) / 2 ^ n"
proof -
  have nz: "x \<noteq> 0"
  proof
    assume "x = 0"
    then have "(of_int k :: real) = - (1 / 2)" using assms(2) by simp
    then have "(of_int (2 * k) :: real) = of_int (- 1)" by simp
    then have "2 * k = - 1" by (simp only: of_int_eq_iff)
    then show False by presburger
  qed
  have "x / (1 / 2 ^ n) = of_int k + 1 / 2" using assms(2) by simp
  then have "round_half_even (x / (1 / 2 ^ n)) = (if even k then k else k + 1)"
    by (rule round_half_even_tie)
  from round_double_eq [OF assms(1) this nz] show ?thesis by simp
qed

lemma round_half_even_error: "\<bar>of_int (round_half_even x) - x\<bar> \<le> 1 / 2"
proof -
  have "of_int \<lfloor>x\<rfloor> \<le> x" and "x < of_int \<lfloor>x\<rfloor> + 1" by linarith+
  then show ?thesis by (auto simp: round_half_even_def Let_def)
qed

lemma quantum_le:
  assumes "x \<noteq> 0"
  shows "quantum x \<le> \<bar>x\<bar> / 2 ^ 52 + 1 / 2 ^ 1074"
proof (cases "- 1022 \<le> \<lfloor>log 2 \<bar>x\<bar>\<rfloor>")
  case True
  have pos: "0 < \<bar>x\<bar>" using assms by simp
  have "quantum x = 2 powr of_int (\<lfloor>log 2 \<bar>x\<bar>\<rfloor> - 52)"
    using True by (simp add: quantum_def)
  also have "\<dots> = 2 powr of_int \<lfloor>log 2 \<bar>x\<bar>\<rfloor> / 2 powr 52"
    by (simp add: powr_diff)
  also have "\<dots> \<le> \<bar>x\<bar> / 2 powr 52"
    using two_powr_floor_log2_le [OF pos] by (intro divide_right_mono) simp_all
  also have "\<dots> = \<bar>x\<bar> / 2 ^ 52" by simp
  finally show ?thesis by simp
next
  case False
  then have "max \<lfloor>log 2 \<bar>x\<bar>\<rfloor> (- 1022) = - 1022" by simp
  then have "quantum x = 2 powr of_int (- 1022 - 52)" by (simp only: quantum_def)
  also have "\<dots> = 2 powr (- real 1074)" by simp
  also have "\<dots> = 1 / 2 powr real 1074" by (rule powr_minus_divide)
  also have "\<dots> = 1 / 2 ^ 1074" by (subst powr_realpow) simp_all
  finally show ?thesis by simp
qed

lemma round_double_error:
  "\<bar>round_double x - x\<bar> \<le> \<bar>x\<bar> / 2 ^ 53 + 1 / 2 ^ 1075"
proof (cases "x = 0")
  case True
  then show ?thesis by (simp add: round_double_def)
next
  case False
  let ?q = "quantum x"
  have "round_double x - x = (of_int (round_half_even (x / ?q)) - x / ?q) * ?q"
    using False by (simp add: round_double_def algebra_simps)
  then have "\<bar>round_double x - x\<bar> = \<bar>of_int (round_half_even (x / ?q)) - x / ?q\<bar> * ?q"
    by (simp add: abs_mult)
  also have "\<dots> \<le> 1 / 2 * ?q"
    using round_half_even_error [of "x / ?q"] by (intro mult_right_mono) simp_all
  also have "\<dots> \<le> 1 / 2 * (\<bar>x\<bar> / 2 ^ 52 + 1 / 2 ^ 1074)"
    using quantum_le [OF False] by (intro mult_left_mono) simp_all
  also have "\<dots> = \<bar>x\<bar> / 2 ^ 53 + 1 / 2 ^ 1075" by simp
  finally show ?thesis .
qed

lemma quantum_subnormal:
  assumes "x \<noteq> 0" and "\<bar>x\<bar> < 1 / 2 ^ 1022"
  shows "quantum x = 1 / 2 ^ 1074"
proof -
  have pos: "0 < \<bar>x\<bar>" using assms(1) by simp
  have "\<bar>x\<bar> \<le> 2 powr of_int (- 1022)"
    using assms(2) by (simp add: powr_minus_divide)
  then have "\<lfloor>log 2 \<bar>x\<bar>\<rfloor> \<le> - 1022" using pos by (intro floor_log2_le) simp_all
  then have "max \<lfloor>log 2 \<bar>x\<bar>\<rfloor> (- 1022) = - 1022" by simp
  then have "quantum x = 2 powr of_int (- 1022 - 52)" by (simp only: quantum_def)
  also have "\<dots> = 2 powr (- real 1074)" by simp
  also have "\<dots> = 1 / 2 powr real 1074" by (rule powr_minus_divide)
  also have "\<dots> = 1 / 2 ^ 1074" by (subst powr_realpow) simp_all
  finally show ?thesis .
qed

lemma double_C_0_1: "round_double C_0_1 = 3602879701896397 / 2 ^ 55"
proof -
  have q: "quantum C_0_1 = 1 / 2 ^ 56"
    unfolding C_0_1_def
    by (rule quantum_numeral_eq [where e = "-4"]) (simp_all add: powr_minus_divide)
  have a: "of_int (7205759403792794) - 1 / 2 < C_0_1 * 2 ^ 56" unfolding C_0_1_def by simp
  have b: "C_0_1 * 2 ^ 56 < of_int (7205759403792794) + 1 / 2" unfolding C_0_1_def by simp
  have r: "round_double C_0_1 = of_int (7205759403792794) / 2 ^ 56"
    by (rule round_double_strict [OF q a b])
  show ?thesis unfolding r by simp
qed

lemma double_MAX_TI_FRACTION_OF_TR: "round_double MAX_TI_FRACTION_OF_TR = 6004799503160661 / 2 ^ 54"
proof -
  have q: "quantum MAX_TI_FRACTION_OF_TR = 1 / 2 ^ 54"
    unfolding MAX_TI_FRACTION_OF_TR_def
    by (rule quantum_numeral_eq [where e = "-2"]) (simp_all add: powr_minus_divide)
  have a: "of_int (6004799503160661) - 1 / 2 < MAX_TI_FRACTION_OF_TR * 2 ^ 54" unfolding MAX_TI_FRACTION_OF_TR_def by simp
  have b: "MAX_TI_FRACTION_OF_TR * 2 ^ 54 < of_int (6004799503160661) + 1 / 2" unfolding MAX_TI_FRACTION_OF_TR_def by simp
  have r: "round_double MAX_TI_FRACTION_OF_TR = of_int (6004799503160661) / 2 ^ 54"
    by (rule round_double_strict [OF q a b])
  show ?thesis unfolding r by simp
qed

lemma double_POWER_EXPONENT: "round_double POWER_EXPONENT = 5404319552844595 / 2 ^ 54"
proof -
  have q: "quantum POWER_EXPONENT = 1 / 2 ^ 54"
    unfolding POWER_EXPONENT_def
    by (rule quantum_numeral_eq [where e = "-2"]) (simp_all add: powr_minus_divide)
  have a: "of_int (5404319552844595) - 1 / 2 < POWER_EXPONENT * 2 ^ 54" unfolding POWER_EXPONENT_def by simp
  have b: "POWER_EXPONENT * 2 ^ 54 < of_int (5404319552844595) + 1 / 2" unfolding POWER_EXPONENT_def by simp
  have r: "round_double POWER_EXPONENT = of_int (5404319552844595) / 2 ^ 54"
    by (rule round_double_strict [OF q a b])
  show ?thesis unfolding r by simp
qed

lemma double_C_0_02_literal:
  "round_double (5764607523034235 / 2 ^ 58) = 5764607523034235 / 2 ^ 58"
proof -
  let ?x = "5764607523034235 / 2 ^ 58 :: real"
  have q: "quantum ?x = 1 / 2 ^ 58"
    by (rule quantum_numeral_eq [where e = "-6"]) (simp_all add: powr_minus_divide)
  have a: "of_int (5764607523034235) - 1 / 2 < ?x * 2 ^ 58" by simp
  have b: "?x * 2 ^ 58 < of_int (5764607523034235) + 1 / 2" by simp
  have r: "round_double ?x = of_int (5764607523034235) / 2 ^ 58"
    by (rule round_double_strict [OF q a b])
  show ?thesis unfolding r by simp
qed

lemma double_one_over_C_0_1:
  "round_double (1 / (3602879701896397 / 2 ^ 55)) = 10"
proof -
  let ?x = "1 / (3602879701896397 / 2 ^ 55) :: real"
  have q: "quantum ?x = 1 / 2 ^ 49"
    by (rule quantum_numeral_eq [where e = "3"]) (simp_all add: powr_minus_divide)
  have a: "of_int (5629499534213120) - 1 / 2 < ?x * 2 ^ 49" by simp
  have b: "?x * 2 ^ 49 < of_int (5629499534213120) + 1 / 2" by simp
  have r: "round_double ?x = of_int (5629499534213120) / 2 ^ 49"
    by (rule round_double_strict [OF q a b])
  show ?thesis unfolding r by simp
qed

lemma double_C_0_1_nonzero: "round_double C_0_1 \<noteq> 0"
  by (simp add: double_C_0_1)

lemma double_C_0_1_pos: "0 < round_double C_0_1"
  by (simp add: double_C_0_1)

lemma F_double_nonneg_eq:
  assumes "0 \<le> v"
  shows "F_double np_exp v =
           Inr (round_double (round_double C_0_01 +
                  round_double (round_double C_0_02 *
                    np_exp (round_double (round_double C_NEG_0_00005 * v)))))"
  using assms by (simp add: F_double_def)

lemma exponent_arg_nonpos:
  assumes "0 \<le> v"
  shows "round_double (round_double C_NEG_0_00005 * v) \<le> 0"
proof -
  have "round_double C_NEG_0_00005 * v \<le> 0"
    using assms double_C_NEG_0_00005_neg by (simp add: mult_le_0_iff)
  then show ?thesis by (rule round_double_nonpos)
qed

lemma F_double_nonneg:
  assumes "0 \<le> v" and "\<And>x. x \<le> 0 \<Longrightarrow> 0 \<le> np_exp x"
  shows "\<exists>f. F_double np_exp v = Inr f \<and> 0 \<le> f"
proof -
  let ?E = "np_exp (round_double (round_double C_NEG_0_00005 * v))"
  have "0 \<le> ?E" using exponent_arg_nonpos [OF assms(1)] by (rule assms(2))
  then have "0 \<le> round_double C_0_02 * ?E" using double_C_0_02_pos by simp
  then have "0 \<le> round_double (round_double C_0_02 * ?E)" by (rule round_double_nonneg)
  then have "0 \<le> round_double C_0_01 + round_double (round_double C_0_02 * ?E)"
    using double_C_0_01_pos by simp
  then have "0 \<le> round_double (round_double C_0_01 + round_double (round_double C_0_02 * ?E))"
    by (rule round_double_nonneg)
  then show ?thesis by (simp add: F_double_nonneg_eq [OF assms(1)])
qed

lemma calculate_TR_double_eq:
  assumes "0 \<le> v" and "F_double np_exp v = Inr f"
  shows "calculate_TR_double np_exp v =
           Inr (if v = 0 then 0 else round_double (round_double (f * v) / round_double C_0_1))"
  using assms by (simp add: calculate_TR_double_def double_C_0_1_nonzero)

lemma calculate_TR_double_nonneg:
  assumes "0 \<le> v" and "\<And>x. x \<le> 0 \<Longrightarrow> 0 \<le> np_exp x"
  shows "\<exists>tr. calculate_TR_double np_exp v = Inr tr \<and> 0 \<le> tr"
proof -
  have "\<exists>f. F_double np_exp v = Inr f \<and> 0 \<le> f"
    by (rule F_double_nonneg [OF assms(1)]) (rule assms(2))
  then obtain f where f: "F_double np_exp v = Inr f" and "0 \<le> f"
    by blast
  then have "0 \<le> f * v" using assms(1) by simp
  then have "0 \<le> round_double (f * v)" by (rule round_double_nonneg)
  then have "0 \<le> round_double (f * v) / round_double C_0_1"
    using double_C_0_1_pos by simp
  then have "0 \<le> round_double (round_double (f * v) / round_double C_0_1)"
    by (rule round_double_nonneg)
  then show ?thesis by (simp add: calculate_TR_double_eq [OF assms(1) f])
qed

lemma calculate_potential_TI_double_eq:
  assumes "0 \<le> v"
  shows "calculate_potential_TI_double np_power v =
           Inr (round_double (np_power (round_double (1 + v)) (round_double POWER_EXPONENT)
                  / round_double C_0_1))"
  using assms by (simp add: calculate_potential_TI_double_def double_C_0_1_nonzero)

lemma calculate_TR_and_TI_double_eq:
  assumes "0 \<le> v" and "calculate_TR_double np_exp v = Inr tr"
    and "calculate_potential_TI_double np_power v = Inr pot"
  shows "calculate_TR_and_TI_double np_exp np_power v =
           Inr (tr, max 0 (min pot (round_double (round_double MAX_TI_FRACTION_OF_TR * tr))))"
  using assms by (simp add: calculate_TR_and_TI_double_def)

lemma double_third_le: "round_double MAX_TI_FRACTION_OF_TR \<le> 1 / 3"
  by (simp add: double_MAX_TI_FRACTION_OF_TR)

lemma double_third_nonneg: "0 \<le> round_double MAX_TI_FRACTION_OF_TR"
  by (simp add: double_MAX_TI_FRACTION_OF_TR)

lemma cap_double_bounds:
  assumes "0 \<le> tr"
  shows "0 \<le> round_double (round_double MAX_TI_FRACTION_OF_TR * tr)"
    and "round_double (round_double MAX_TI_FRACTION_OF_TR * tr) \<le> round_double (tr / 3)"
proof -
  have p: "0 \<le> round_double MAX_TI_FRACTION_OF_TR * tr"
    using assms double_third_nonneg by simp
  then show "0 \<le> round_double (round_double MAX_TI_FRACTION_OF_TR * tr)"
    by (rule round_double_nonneg)
  have "round_double MAX_TI_FRACTION_OF_TR * tr \<le> 1 / 3 * tr"
    using double_third_le assms by (rule mult_right_mono)
  then have "round_double MAX_TI_FRACTION_OF_TR * tr \<le> tr / 3" by simp
  with p show "round_double (round_double MAX_TI_FRACTION_OF_TR * tr) \<le> round_double (tr / 3)"
    by (rule round_double_mono)
qed

lemma evaluate_double_bounds:
  assumes "0 \<le> v" and "\<And>x. x \<le> 0 \<Longrightarrow> 0 \<le> np_exp x"
  shows "\<exists>tr ti. calculate_TR_and_TI_double np_exp np_power v = Inr (tr, ti) \<and>
           0 \<le> tr \<and> 0 \<le> ti \<and>
           ti \<le> round_double (round_double MAX_TI_FRACTION_OF_TR * tr) \<and>
           ti \<le> round_double (tr / 3)"
proof -
  have "\<exists>tr. calculate_TR_double np_exp v = Inr tr \<and> 0 \<le> tr"
    by (rule calculate_TR_double_nonneg [OF assms(1)]) (rule assms(2))
  then obtain tr where tr: "calculate_TR_double np_exp v = Inr tr" and tr0: "0 \<le> tr" by blast
  let ?pot = "round_double (np_power (round_double (1 + v)) (round_double POWER_EXPONENT)
                  / round_double C_0_1)"
  let ?cap = "round_double (round_double MAX_TI_FRACTION_OF_TR * tr)"
  let ?ti = "max 0 (min ?pot ?cap)"
  have pot: "calculate_potential_TI_double np_power v = Inr ?pot"
    by (rule calculate_potential_TI_double_eq [OF assms(1)])
  have eq: "calculate_TR_and_TI_double np_exp np_power v = Inr (tr, ?ti)"
    by (rule calculate_TR_and_TI_double_eq [OF assms(1) tr pot])
  have cap0: "0 \<le> ?cap" and cap1: "?cap \<le> round_double (tr / 3)"
    using cap_double_bounds [OF tr0] by simp_all
  have "?ti \<le> ?cap" using cap0 by (rule capped_le_cap)
  moreover have "0 \<le> ?ti" by simp
  ultimately show ?thesis using eq tr0 cap1 by (intro exI conjI) (assumption | linarith)+
qed

lemma double_POWER_EXPONENT_nonneg: "0 \<le> round_double POWER_EXPONENT"
  by (simp add: double_POWER_EXPONENT)

lemma power_double_ge_one:
  assumes "1 \<le> b"
  shows "1 \<le> power_double b (round_double POWER_EXPONENT)"
proof -
  have "1 \<le> b powr round_double POWER_EXPONENT"
    using assms double_POWER_EXPONENT_nonneg by (rule ge_one_powr_ge_zero)
  then have "round_double 1 \<le> round_double (b powr round_double POWER_EXPONENT)"
    by (intro round_double_mono) simp_all
  then show ?thesis by (simp add: power_double_def round_double_one)
qed

lemma base_double_ge_one:
  assumes "0 \<le> v"
  shows "1 \<le> round_double (1 + v)"
proof -
  have "round_double 1 \<le> round_double (1 + v)" using assms by (intro round_double_mono) simp_all
  then show ?thesis by (simp add: round_double_one)
qed

lemma potential_double_ge_10:
  assumes "0 \<le> v" and "\<And>b. 1 \<le> b \<Longrightarrow> 1 \<le> np_power b (round_double POWER_EXPONENT)"
  shows "\<exists>pot. calculate_potential_TI_double np_power v = Inr pot \<and> 10 \<le> pot"
proof -
  let ?P = "np_power (round_double (1 + v)) (round_double POWER_EXPONENT)"
  have P: "1 \<le> ?P" using base_double_ge_one [OF assms(1)] by (rule assms(2))
  have "1 / round_double C_0_1 \<le> ?P / round_double C_0_1"
    using P double_C_0_1_pos by (intro divide_right_mono) simp_all
  moreover have "0 \<le> 1 / round_double C_0_1" using double_C_0_1_pos by simp
  ultimately have "round_double (1 / round_double C_0_1) \<le> round_double (?P / round_double C_0_1)"
    by (intro round_double_mono)
  moreover have "round_double (1 / round_double C_0_1) = 10"
    by (simp only: double_C_0_1 double_one_over_C_0_1)
  ultimately have "10 \<le> round_double (?P / round_double C_0_1)" by simp
  then show ?thesis by (simp add: calculate_potential_TI_double_eq [OF assms(1)])
qed

lemma evaluate_double_capped:
  assumes "0 \<le> v" and "\<And>b. 1 \<le> b \<Longrightarrow> 1 \<le> np_power b (round_double POWER_EXPONENT)"
    and "calculate_TR_double np_exp v = Inr tr"
    and "round_double (round_double MAX_TI_FRACTION_OF_TR * tr) = cap"
    and "0 \<le> cap" and "cap \<le> 10"
  shows "calculate_TR_and_TI_double np_exp np_power v = Inr (tr, cap)"
proof -
  have "\<exists>pot. calculate_potential_TI_double np_power v = Inr pot \<and> 10 \<le> pot"
    by (rule potential_double_ge_10 [OF assms(1)]) (rule assms(2))
  then obtain pot where pot: "calculate_potential_TI_double np_power v = Inr pot"
    and big: "10 \<le> pot" by blast
  have "max 0 (min pot cap) = cap" using big assms(5,6) by (simp add: max_def min_def)
  then show ?thesis
    using calculate_TR_and_TI_double_eq [OF assms(1,3) pot] assms(4) by simp
qed

subsection \<open>The functions at three volumes\<close>

lemma sub_base:
  "round_double (1 + 60 / 2 ^ 1074) = 1"
proof -
  let ?x = "1 + 60 / 2 ^ 1074 :: real"
  have q: "quantum ?x = 1 / 2 ^ 52"
    by (rule quantum_numeral_eq [where e = "0"]) (simp_all add: powr_minus_divide)
  have a: "of_int (4503599627370496) - 1 / 2 < ?x * 2 ^ 52" by simp
  have b: "?x * 2 ^ 52 < of_int (4503599627370496) + 1 / 2" by simp
  have r: "round_double ?x = of_int (4503599627370496) / 2 ^ 52"
    by (rule round_double_strict [OF q a b])
  show ?thesis unfolding r by simp
qed

lemma sub_arg:
  "round_double (- (7378697629483821 / 2 ^ 67) * (60 / 2 ^ 1074)) = 0"
proof -
  let ?x = "- (7378697629483821 / 2 ^ 67) * (60 / 2 ^ 1074) :: real"
  have q: "quantum ?x = 1 / 2 ^ 1074" by (rule quantum_subnormal) simp_all
  have a: "of_int 0 - 1 / 2 < ?x * 2 ^ 1074" by simp
  have b: "?x * 2 ^ 1074 < of_int 0 + 1 / 2" by simp
  have r: "round_double ?x = of_int 0 / 2 ^ 1074" by (rule round_double_strict [OF q a b])
  show ?thesis unfolding r by simp
qed

lemma sub_prod:
  "round_double (5764607523034235 / 2 ^ 58 * 1) = 5764607523034235 / 2 ^ 58"
proof -
  let ?x = "5764607523034235 / 2 ^ 58 * 1 :: real"
  have q: "quantum ?x = 1 / 2 ^ 58"
    by (rule quantum_numeral_eq [where e = "-6"]) (simp_all add: powr_minus_divide)
  have a: "of_int (5764607523034235) - 1 / 2 < ?x * 2 ^ 58" by simp
  have b: "?x * 2 ^ 58 < of_int (5764607523034235) + 1 / 2" by simp
  have r: "round_double ?x = of_int (5764607523034235) / 2 ^ 58"
    by (rule round_double_strict [OF q a b])
  show ?thesis unfolding r by simp
qed

lemma sub_sum:
  "round_double (5764607523034235 / 2 ^ 59 + 5764607523034235 / 2 ^ 58) = 1080863910568919 / 2 ^ 55"
proof -
  let ?x = "5764607523034235 / 2 ^ 59 + 5764607523034235 / 2 ^ 58 :: real"
  have q: "quantum ?x = 1 / 2 ^ 58"
    by (rule quantum_numeral_eq [where e = "-6"]) (simp_all add: powr_minus_divide)
  have t: "?x * 2 ^ 58 = of_int (8646911284551352) + 1 / 2" by simp
  have r: "round_double ?x = of_int (if even (8646911284551352::int) then 8646911284551352 else 8646911284551352 + 1) / 2 ^ 58"
    by (rule round_double_tie [OF q t])
  show ?thesis unfolding r by simp
qed

lemma sub_fv:
  "round_double (1080863910568919 / 2 ^ 55 * (60 / 2 ^ 1074)) = 1 / 2 ^ 1073"
proof -
  let ?x = "1080863910568919 / 2 ^ 55 * (60 / 2 ^ 1074) :: real"
  have q: "quantum ?x = 1 / 2 ^ 1074"
    by (rule quantum_subnormal) simp_all
  have a: "of_int (2) - 1 / 2 < ?x * 2 ^ 1074" by simp
  have b: "?x * 2 ^ 1074 < of_int (2) + 1 / 2" by simp
  have r: "round_double ?x = of_int (2) / 2 ^ 1074"
    by (rule round_double_strict [OF q a b])
  show ?thesis unfolding r by simp
qed

lemma sub_tr:
  "round_double (1 / 2 ^ 1073 / (3602879701896397 / 2 ^ 55)) = 5 / 2 ^ 1072"
proof -
  let ?x = "1 / 2 ^ 1073 / (3602879701896397 / 2 ^ 55) :: real"
  have q: "quantum ?x = 1 / 2 ^ 1074"
    by (rule quantum_subnormal) simp_all
  have a: "of_int (20) - 1 / 2 < ?x * 2 ^ 1074" by simp
  have b: "?x * 2 ^ 1074 < of_int (20) + 1 / 2" by simp
  have r: "round_double ?x = of_int (20) / 2 ^ 1074"
    by (rule round_double_strict [OF q a b])
  show ?thesis unfolding r by simp
qed

lemma sub_cap:
  "round_double (6004799503160661 / 2 ^ 54 * (5 / 2 ^ 1072)) = 7 / 2 ^ 1074"
proof -
  let ?x = "6004799503160661 / 2 ^ 54 * (5 / 2 ^ 1072) :: real"
  have q: "quantum ?x = 1 / 2 ^ 1074"
    by (rule quantum_subnormal) simp_all
  have a: "of_int (7) - 1 / 2 < ?x * 2 ^ 1074" by simp
  have b: "?x * 2 ^ 1074 < of_int (7) + 1 / 2" by simp
  have r: "round_double ?x = of_int (7) / 2 ^ 1074"
    by (rule round_double_strict [OF q a b])
  show ?thesis unfolding r by simp
qed

lemma sub_F_double:
  "F_double exp_double (60 / 2 ^ 1074) = Inr (1080863910568919 / 2 ^ 55)"
proof -
  have nneg: "\<not> (60 / 2 ^ 1074 :: real) < 0" by simp
  show ?thesis
    unfolding F_double_def
    by (simp only: nneg if_False double_C_NEG_0_00005 double_C_0_02 double_C_0_01
        sub_arg exp_double_zero sub_prod sub_sum mult_1_right double_C_0_02_literal)
qed

lemma sub_TR_double:
  "calculate_TR_double exp_double (60 / 2 ^ 1074) = Inr (5 / 2 ^ 1072)"
proof -
  have nneg: "\<not> (60 / 2 ^ 1074 :: real) < 0" by simp
  have nz: "(60 / 2 ^ 1074 :: real) = 0 \<longleftrightarrow> False" by simp
  have c3: "(3602879701896397 / 2 ^ 55 :: real) = 0 \<longleftrightarrow> False" by simp
  show ?thesis
    unfolding calculate_TR_double_def
    by (simp only: nneg nz c3 if_False sub_F_double sum.case double_C_0_1 sub_fv sub_tr)
qed

lemma lo_arg:
  "round_double (- (7378697629483821 / 2 ^ 67) * (5533853081843794 / 2 ^ 52)) = - (1133333111161609 / 2 ^ 64)"
proof -
  let ?x = "- (7378697629483821 / 2 ^ 67) * (5533853081843794 / 2 ^ 52) :: real"
  have q: "quantum ?x = 1 / 2 ^ 66"
    by (rule quantum_numeral_eq [where e = "-14"]) (simp_all add: powr_minus_divide)
  have a: "of_int (-4533332444646436) - 1 / 2 < ?x * 2 ^ 66" by simp
  have b: "?x * 2 ^ 66 < of_int (-4533332444646436) + 1 / 2" by simp
  have r: "round_double ?x = of_int (-4533332444646436) / 2 ^ 66"
    by (rule round_double_strict [OF q a b])
  show ?thesis unfolding r by simp
qed

lemma lo_exp:
  "exp_double (- (1133333111161609 / 2 ^ 64)) = 4503322943215967 / 2 ^ 52"
proof -
  let ?y = "- (1133333111161609 / 2 ^ 64) :: real"
  let ?P = "1 + ?y + ?y ^ 2 / 2 + ?y ^ 3 / 6 + ?y ^ 4 / 24 + ?y ^ 5 / 120"
  define E where "E = exp ?y"
  have ay: "\<bar>?y\<bar> \<le> 1" by simp
  have lo: "?P \<le> E" unfolding E_def by (rule exp_taylor_6(1) [OF ay])
  have hi: "E \<le> ?P + ?y ^ 6 / 240" unfolding E_def by (rule exp_taylor_6(2) [OF ay])
  have l1: "1 / 2 \<le> ?P" by (simp add: power_divide)
  have u1: "?P + ?y ^ 6 / 240 < 1" by (simp add: power_divide)
  have l2: "of_int (9006645886431934) - 1 / 2 < ?P * 2 ^ 53" by (simp add: power_divide)
  have u2: "(?P + ?y ^ 6 / 240) * 2 ^ 53 < of_int (9006645886431934) + 1 / 2" by (simp add: power_divide)
  have pos: "1 / 2 \<le> E" "E < 1" using lo hi l1 u1 by linarith+
  have q: "quantum E = 1 / 2 ^ 53"
    by (rule quantum_numeral_eq [where e = "- 1"]) (use pos in \<open>simp_all add: powr_minus_divide\<close>)
  have "?P * 2 ^ 53 \<le> E * 2 ^ 53" using lo by (rule mult_right_mono) simp
  with l2 have a: "of_int (9006645886431934) - 1 / 2 < E * 2 ^ 53" by linarith
  have "E * 2 ^ 53 \<le> (?P + ?y ^ 6 / 240) * 2 ^ 53" using hi by (rule mult_right_mono) simp
  with u2 have b: "E * 2 ^ 53 < of_int (9006645886431934) + 1 / 2" by linarith
  have r: "round_double E = of_int (9006645886431934) / 2 ^ 53"
    by (rule round_double_strict [OF q a b])
  show ?thesis unfolding exp_double_def E_def [symmetric] r by simp
qed

lemma lo_prod:
  "round_double (5764607523034235 / 2 ^ 58 * (4503322943215967 / 2 ^ 52)) = 2882126683658219 / 2 ^ 57"
proof -
  let ?x = "5764607523034235 / 2 ^ 58 * (4503322943215967 / 2 ^ 52) :: real"
  have q: "quantum ?x = 1 / 2 ^ 58"
    by (rule quantum_numeral_eq [where e = "-6"]) (simp_all add: powr_minus_divide)
  have a: "of_int (5764253367316438) - 1 / 2 < ?x * 2 ^ 58" by simp
  have b: "?x * 2 ^ 58 < of_int (5764253367316438) + 1 / 2" by simp
  have r: "round_double ?x = of_int (5764253367316438) / 2 ^ 58"
    by (rule round_double_strict [OF q a b])
  show ?thesis unfolding r by simp
qed

lemma lo_sum:
  "round_double (5764607523034235 / 2 ^ 59 + 2882126683658219 / 2 ^ 57) = 2161639282208389 / 2 ^ 56"
proof -
  let ?x = "5764607523034235 / 2 ^ 59 + 2882126683658219 / 2 ^ 57 :: real"
  have q: "quantum ?x = 1 / 2 ^ 58"
    by (rule quantum_numeral_eq [where e = "-6"]) (simp_all add: powr_minus_divide)
  have t: "?x * 2 ^ 58 = of_int (8646557128833555) + 1 / 2" by simp
  have r: "round_double ?x = of_int (if even (8646557128833555::int) then 8646557128833555 else 8646557128833555 + 1) / 2 ^ 58"
    by (rule round_double_tie [OF q t])
  show ?thesis unfolding r by simp
qed

lemma lo_fv:
  "round_double (2161639282208389 / 2 ^ 56 * (5533853081843794 / 2 ^ 52)) = 5312281371986805 / 2 ^ 57"
proof -
  let ?x = "2161639282208389 / 2 ^ 56 * (5533853081843794 / 2 ^ 52) :: real"
  have q: "quantum ?x = 1 / 2 ^ 57"
    by (rule quantum_numeral_eq [where e = "-5"]) (simp_all add: powr_minus_divide)
  have a: "of_int (5312281371986805) - 1 / 2 < ?x * 2 ^ 57" by simp
  have b: "?x * 2 ^ 57 < of_int (5312281371986805) + 1 / 2" by simp
  have r: "round_double ?x = of_int (5312281371986805) / 2 ^ 57"
    by (rule round_double_strict [OF q a b])
  show ?thesis unfolding r by simp
qed

lemma lo_tr:
  "round_double (5312281371986805 / 2 ^ 57 / (3602879701896397 / 2 ^ 55)) = 3320175857491753 / 2 ^ 53"
proof -
  let ?x = "5312281371986805 / 2 ^ 57 / (3602879701896397 / 2 ^ 55) :: real"
  have q: "quantum ?x = 1 / 2 ^ 54"
    by (rule quantum_numeral_eq [where e = "-2"]) (simp_all add: powr_minus_divide)
  have a: "of_int (6640351714983506) - 1 / 2 < ?x * 2 ^ 54" by simp
  have b: "?x * 2 ^ 54 < of_int (6640351714983506) + 1 / 2" by simp
  have r: "round_double ?x = of_int (6640351714983506) / 2 ^ 54"
    by (rule round_double_strict [OF q a b])
  show ?thesis unfolding r by simp
qed

lemma lo_cap:
  "round_double (6004799503160661 / 2 ^ 54 * (3320175857491753 / 2 ^ 53)) = 4426901143322337 / 2 ^ 55"
proof -
  let ?x = "6004799503160661 / 2 ^ 54 * (3320175857491753 / 2 ^ 53) :: real"
  have q: "quantum ?x = 1 / 2 ^ 56"
    by (rule quantum_numeral_eq [where e = "-4"]) (simp_all add: powr_minus_divide)
  have a: "of_int (8853802286644674) - 1 / 2 < ?x * 2 ^ 56" by simp
  have b: "?x * 2 ^ 56 < of_int (8853802286644674) + 1 / 2" by simp
  have r: "round_double ?x = of_int (8853802286644674) / 2 ^ 56"
    by (rule round_double_strict [OF q a b])
  show ?thesis unfolding r by simp
qed

lemma lo_F_double:
  "F_double exp_double (5533853081843794 / 2 ^ 52) = Inr (2161639282208389 / 2 ^ 56)"
proof -
  have nneg: "\<not> (5533853081843794 / 2 ^ 52 :: real) < 0" by simp
  show ?thesis
    unfolding F_double_def
    by (simp only: nneg if_False double_C_NEG_0_00005 double_C_0_02 double_C_0_01
        lo_arg lo_exp lo_prod lo_sum)
qed

lemma lo_TR_double:
  "calculate_TR_double exp_double (5533853081843794 / 2 ^ 52) = Inr (3320175857491753 / 2 ^ 53)"
proof -
  have nneg: "\<not> (5533853081843794 / 2 ^ 52 :: real) < 0" by simp
  have nz: "(5533853081843794 / 2 ^ 52 :: real) = 0 \<longleftrightarrow> False" by simp
  have c3: "(3602879701896397 / 2 ^ 55 :: real) = 0 \<longleftrightarrow> False" by simp
  show ?thesis
    unfolding calculate_TR_double_def
    by (simp only: nneg nz c3 if_False lo_F_double sum.case double_C_0_1 lo_fv lo_tr)
qed

lemma hi_arg:
  "round_double (- (7378697629483821 / 2 ^ 67) * (5533853081843795 / 2 ^ 52)) = - (4533332444646437 / 2 ^ 66)"
proof -
  let ?x = "- (7378697629483821 / 2 ^ 67) * (5533853081843795 / 2 ^ 52) :: real"
  have q: "quantum ?x = 1 / 2 ^ 66"
    by (rule quantum_numeral_eq [where e = "-14"]) (simp_all add: powr_minus_divide)
  have a: "of_int (-4533332444646437) - 1 / 2 < ?x * 2 ^ 66" by simp
  have b: "?x * 2 ^ 66 < of_int (-4533332444646437) + 1 / 2" by simp
  have r: "round_double ?x = of_int (-4533332444646437) / 2 ^ 66"
    by (rule round_double_strict [OF q a b])
  show ?thesis unfolding r by simp
qed

lemma hi_exp:
  "exp_double (- (4533332444646437 / 2 ^ 66)) = 9006645886431933 / 2 ^ 53"
proof -
  let ?y = "- (4533332444646437 / 2 ^ 66) :: real"
  let ?P = "1 + ?y + ?y ^ 2 / 2 + ?y ^ 3 / 6 + ?y ^ 4 / 24 + ?y ^ 5 / 120"
  define E where "E = exp ?y"
  have ay: "\<bar>?y\<bar> \<le> 1" by simp
  have lo: "?P \<le> E" unfolding E_def by (rule exp_taylor_6(1) [OF ay])
  have hi: "E \<le> ?P + ?y ^ 6 / 240" unfolding E_def by (rule exp_taylor_6(2) [OF ay])
  have l1: "1 / 2 \<le> ?P" by (simp add: power_divide)
  have u1: "?P + ?y ^ 6 / 240 < 1" by (simp add: power_divide)
  have l2: "of_int (9006645886431933) - 1 / 2 < ?P * 2 ^ 53" by (simp add: power_divide)
  have u2: "(?P + ?y ^ 6 / 240) * 2 ^ 53 < of_int (9006645886431933) + 1 / 2" by (simp add: power_divide)
  have pos: "1 / 2 \<le> E" "E < 1" using lo hi l1 u1 by linarith+
  have q: "quantum E = 1 / 2 ^ 53"
    by (rule quantum_numeral_eq [where e = "- 1"]) (use pos in \<open>simp_all add: powr_minus_divide\<close>)
  have "?P * 2 ^ 53 \<le> E * 2 ^ 53" using lo by (rule mult_right_mono) simp
  with l2 have a: "of_int (9006645886431933) - 1 / 2 < E * 2 ^ 53" by linarith
  have "E * 2 ^ 53 \<le> (?P + ?y ^ 6 / 240) * 2 ^ 53" using hi by (rule mult_right_mono) simp
  with u2 have b: "E * 2 ^ 53 < of_int (9006645886431933) + 1 / 2" by linarith
  have r: "round_double E = of_int (9006645886431933) / 2 ^ 53"
    by (rule round_double_strict [OF q a b])
  show ?thesis unfolding exp_double_def E_def [symmetric] r by simp
qed

lemma hi_prod:
  "round_double (5764607523034235 / 2 ^ 58 * (9006645886431933 / 2 ^ 53)) = 5764253367316437 / 2 ^ 58"
proof -
  let ?x = "5764607523034235 / 2 ^ 58 * (9006645886431933 / 2 ^ 53) :: real"
  have q: "quantum ?x = 1 / 2 ^ 58"
    by (rule quantum_numeral_eq [where e = "-6"]) (simp_all add: powr_minus_divide)
  have a: "of_int (5764253367316437) - 1 / 2 < ?x * 2 ^ 58" by simp
  have b: "?x * 2 ^ 58 < of_int (5764253367316437) + 1 / 2" by simp
  have r: "round_double ?x = of_int (5764253367316437) / 2 ^ 58"
    by (rule round_double_strict [OF q a b])
  show ?thesis unfolding r by simp
qed

lemma hi_sum:
  "round_double (5764607523034235 / 2 ^ 59 + 5764253367316437 / 2 ^ 58) = 4323278564416777 / 2 ^ 57"
proof -
  let ?x = "5764607523034235 / 2 ^ 59 + 5764253367316437 / 2 ^ 58 :: real"
  have q: "quantum ?x = 1 / 2 ^ 58"
    by (rule quantum_numeral_eq [where e = "-6"]) (simp_all add: powr_minus_divide)
  have t: "?x * 2 ^ 58 = of_int (8646557128833554) + 1 / 2" by simp
  have r: "round_double ?x = of_int (if even (8646557128833554::int) then 8646557128833554 else 8646557128833554 + 1) / 2 ^ 58"
    by (rule round_double_tie [OF q t])
  show ?thesis unfolding r by simp
qed

lemma hi_fv:
  "round_double (4323278564416777 / 2 ^ 57 * (5533853081843795 / 2 ^ 52)) = 1328070342996701 / 2 ^ 55"
proof -
  let ?x = "4323278564416777 / 2 ^ 57 * (5533853081843795 / 2 ^ 52) :: real"
  have q: "quantum ?x = 1 / 2 ^ 57"
    by (rule quantum_numeral_eq [where e = "-5"]) (simp_all add: powr_minus_divide)
  have a: "of_int (5312281371986804) - 1 / 2 < ?x * 2 ^ 57" by simp
  have b: "?x * 2 ^ 57 < of_int (5312281371986804) + 1 / 2" by simp
  have r: "round_double ?x = of_int (5312281371986804) / 2 ^ 57"
    by (rule round_double_strict [OF q a b])
  show ?thesis unfolding r by simp
qed

lemma hi_tr:
  "round_double (1328070342996701 / 2 ^ 55 / (3602879701896397 / 2 ^ 55)) = 6640351714983505 / 2 ^ 54"
proof -
  let ?x = "1328070342996701 / 2 ^ 55 / (3602879701896397 / 2 ^ 55) :: real"
  have q: "quantum ?x = 1 / 2 ^ 54"
    by (rule quantum_numeral_eq [where e = "-2"]) (simp_all add: powr_minus_divide)
  have a: "of_int (6640351714983505) - 1 / 2 < ?x * 2 ^ 54" by simp
  have b: "?x * 2 ^ 54 < of_int (6640351714983505) + 1 / 2" by simp
  have r: "round_double ?x = of_int (6640351714983505) / 2 ^ 54"
    by (rule round_double_strict [OF q a b])
  show ?thesis unfolding r by simp
qed

lemma hi_cap:
  "round_double (6004799503160661 / 2 ^ 54 * (6640351714983505 / 2 ^ 54)) = 8853802286644673 / 2 ^ 56"
proof -
  let ?x = "6004799503160661 / 2 ^ 54 * (6640351714983505 / 2 ^ 54) :: real"
  have q: "quantum ?x = 1 / 2 ^ 56"
    by (rule quantum_numeral_eq [where e = "-4"]) (simp_all add: powr_minus_divide)
  have a: "of_int (8853802286644673) - 1 / 2 < ?x * 2 ^ 56" by simp
  have b: "?x * 2 ^ 56 < of_int (8853802286644673) + 1 / 2" by simp
  have r: "round_double ?x = of_int (8853802286644673) / 2 ^ 56"
    by (rule round_double_strict [OF q a b])
  show ?thesis unfolding r by simp
qed

lemma hi_F_double:
  "F_double exp_double (5533853081843795 / 2 ^ 52) = Inr (4323278564416777 / 2 ^ 57)"
proof -
  have nneg: "\<not> (5533853081843795 / 2 ^ 52 :: real) < 0" by simp
  show ?thesis
    unfolding F_double_def
    by (simp only: nneg if_False double_C_NEG_0_00005 double_C_0_02 double_C_0_01
        hi_arg hi_exp hi_prod hi_sum)
qed

lemma hi_TR_double:
  "calculate_TR_double exp_double (5533853081843795 / 2 ^ 52) = Inr (6640351714983505 / 2 ^ 54)"
proof -
  have nneg: "\<not> (5533853081843795 / 2 ^ 52 :: real) < 0" by simp
  have nz: "(5533853081843795 / 2 ^ 52 :: real) = 0 \<longleftrightarrow> False" by simp
  have c3: "(3602879701896397 / 2 ^ 55 :: real) = 0 \<longleftrightarrow> False" by simp
  show ?thesis
    unfolding calculate_TR_double_def
    by (simp only: nneg nz c3 if_False hi_F_double sum.case double_C_0_1 hi_fv hi_tr)
qed

subsection \<open>The double-precision cost follows its exact formula\<close>

lemma exp_diff_le:
  fixes y a :: real
  assumes "y \<le> a" and "a \<le> 0"
  shows "0 \<le> exp a - exp y" and "exp a - exp y \<le> a - y"
proof -
  show "0 \<le> exp a - exp y" using assms(1) by simp
  have "1 + (y - a) \<le> exp (y - a)" by (rule exp_ge_add_one_self)
  then have "1 - exp (y - a) \<le> a - y" by linarith
  moreover have "0 \<le> exp a" "exp a \<le> 1" using assms(2) by simp_all
  moreover have "0 \<le> a - y" using assms(1) by simp
  ultimately have "exp a * (1 - exp (y - a)) \<le> 1 * (a - y)"
    by (intro mult_mono) simp_all
  moreover have "exp a * (1 - exp (y - a)) = exp a - exp y"
    by (simp add: algebra_simps flip: exp_add)
  ultimately show "exp a - exp y \<le> a - y" by simp
qed

lemma exp_lipschitz_nonpos:
  fixes y a :: real
  assumes "y \<le> 0" and "a \<le> 0"
  shows "\<bar>exp y - exp a\<bar> \<le> \<bar>y - a\<bar>"
proof (cases "y \<le> a")
  case True
  from exp_diff_le [OF True assms(2)] show ?thesis using True by simp
next
  case False
  then have "a \<le> y" by simp
  from exp_diff_le [OF this assms(1)] show ?thesis using False by simp
qed

lemma exp_le_small:
  fixes x :: real
  assumes "x \<le> - 50"
  shows "exp x \<le> 1 / 2 ^ 60"
proof -
  have "exp x \<le> exp (- 50)" using assms by simp
  with exp_minus_50_upper show ?thesis by linarith
qed

lemma exp_rounded_arg_close:
  fixes a :: real
  assumes "a \<le> 0"
  shows "\<bar>exp (round_double a) - exp a\<bar> \<le> 1 / 2 ^ 46"
proof -
  have y0: "round_double a \<le> 0" using assms by (rule round_double_nonpos)
  have err: "\<bar>round_double a - a\<bar> \<le> \<bar>a\<bar> / 2 ^ 53 + 1 / 2 ^ 1075"
    by (rule round_double_error)
  show ?thesis
  proof (cases "- 64 \<le> a")
    case True
    then have "\<bar>a\<bar> \<le> 64" using assms by simp
    then have "\<bar>a\<bar> / 2 ^ 53 \<le> 64 / 2 ^ 53" by (intro divide_right_mono) simp_all
    with err have "\<bar>round_double a - a\<bar> \<le> 64 / 2 ^ 53 + 1 / 2 ^ 1075" by linarith
    also have "\<dots> \<le> 1 / 2 ^ 46" by simp
    finally have "\<bar>round_double a - a\<bar> \<le> 1 / 2 ^ 46" .
    with exp_lipschitz_nonpos [OF y0 assms] show ?thesis by linarith
  next
    case False
    then have a: "a < - 64" by simp
    have "\<bar>a\<bar> / 2 ^ 53 \<le> \<bar>a\<bar> / 64" by (intro divide_left_mono) simp_all
    with err have "round_double a \<le> a + \<bar>a\<bar> / 64 + 1 / 2 ^ 1075" by linarith
    also have "\<dots> \<le> - 50" using a by simp
    finally have "round_double a \<le> - 50" .
    then have "exp (round_double a) \<le> 1 / 2 ^ 60" by (rule exp_le_small)
    moreover have "exp a \<le> 1 / 2 ^ 60" using a by (intro exp_le_small) simp
    moreover have "0 \<le> exp (round_double a)" "0 \<le> exp a" by simp_all
    ultimately have "\<bar>exp (round_double a) - exp a\<bar> \<le> 1 / 2 ^ 60" by linarith
    then show ?thesis by simp
  qed
qed

lemma double_C_0_02_le: "round_double C_0_02 \<le> 1 / 32"
  by (simp add: double_C_0_02)

lemma double_C_0_01_le: "round_double C_0_01 \<le> 1 / 64"
  by (simp add: double_C_0_01)

lemma double_C_0_01_ge: "1 / 128 \<le> round_double C_0_01"
  by (simp add: double_C_0_01)

lemma F_double_close:
  assumes "0 \<le> v"
    and acc: "\<And>x. x \<le> 0 \<Longrightarrow> \<bar>np_exp x - exp x\<bar> \<le> exp x / 2 ^ 50 + 1 / 2 ^ 1074"
  shows "\<exists>f. F_double np_exp v = Inr f \<and>
           \<bar>f - (round_double C_0_01
                  + round_double C_0_02 * exp (round_double C_NEG_0_00005 * v))\<bar> \<le> 1 / 2 ^ 48"
proof -
  define c1 where "c1 = round_double C_0_01"
  define c2 where "c2 = round_double C_0_02"
  define a where "a = round_double C_NEG_0_00005 * v"
  define y where "y = round_double a"
  define E where "E = np_exp y"
  define p where "p = round_double (c2 * E)"
  define f where "f = round_double (c1 + p)"
  have c1: "0 \<le> c1" "c1 \<le> 1 / 64"
    unfolding c1_def using double_C_0_01_pos double_C_0_01_le by simp_all
  have c2: "0 \<le> c2" "c2 \<le> 1 / 32"
    unfolding c2_def using double_C_0_02_pos double_C_0_02_le by simp_all
  have a0: "a \<le> 0"
    unfolding a_def using assms(1) double_C_NEG_0_00005_neg by (simp add: mult_le_0_iff)
  have y0: "y \<le> 0" unfolding y_def using a0 by (rule round_double_nonpos)
  have ea: "0 \<le> exp a" "exp a \<le> 1" using a0 by simp_all
  have ey: "0 \<le> exp y" "exp y \<le> 1" using y0 by simp_all
  have e1: "\<bar>exp y - exp a\<bar> \<le> 1 / 2 ^ 46"
    unfolding y_def using a0 by (rule exp_rounded_arg_close)
  have "\<bar>E - exp y\<bar> \<le> exp y / 2 ^ 50 + 1 / 2 ^ 1074"
    unfolding E_def using y0 by (rule acc)
  moreover have "exp y / 2 ^ 50 \<le> 1 / 2 ^ 50"
    using ey(2) by (intro divide_right_mono) simp_all
  ultimately have e2: "\<bar>E - exp y\<bar> \<le> 1 / 2 ^ 50 + 1 / 2 ^ 1074" by linarith
  have e3: "\<bar>E - exp a\<bar> \<le> 1 / 2 ^ 45"
  proof -
    have "\<bar>E - exp a\<bar> \<le> \<bar>E - exp y\<bar> + \<bar>exp y - exp a\<bar>" by linarith
    also have "\<dots> \<le> (1 / 2 ^ 50 + 1 / 2 ^ 1074) + 1 / 2 ^ 46" using e1 e2 by linarith
    also have "\<dots> \<le> 1 / 2 ^ 45" by simp
    finally show ?thesis .
  qed
  have Eb: "\<bar>E\<bar> \<le> 2"
  proof -
    have "(1::real) / 2 ^ 45 \<le> 1" by simp
    with e3 ea show ?thesis by linarith
  qed
  have e4: "\<bar>c2 * E - c2 * exp a\<bar> \<le> 1 / 2 ^ 50"
  proof -
    have "\<bar>c2 * E - c2 * exp a\<bar> = c2 * \<bar>E - exp a\<bar>"
      using c2(1) by (simp add: abs_mult flip: right_diff_distrib)
    also have "\<dots> \<le> 1 / 32 * (1 / 2 ^ 45)"
      using c2 e3 by (intro mult_mono) simp_all
    also have "\<dots> = 1 / 2 ^ 50" by simp
    finally show ?thesis .
  qed
  have pb: "\<bar>c2 * E\<bar> \<le> 1 / 16"
  proof -
    have "\<bar>c2 * E\<bar> = c2 * \<bar>E\<bar>" using c2(1) by (simp add: abs_mult)
    also have "\<dots> \<le> 1 / 32 * 2" using c2 Eb by (intro mult_mono) simp_all
    finally show ?thesis by simp
  qed
  have e5: "\<bar>p - c2 * E\<bar> \<le> 1 / 2 ^ 56"
  proof -
    have "\<bar>p - c2 * E\<bar> \<le> \<bar>c2 * E\<bar> / 2 ^ 53 + 1 / 2 ^ 1075"
      unfolding p_def by (rule round_double_error)
    moreover have "\<bar>c2 * E\<bar> / 2 ^ 53 \<le> (1 / 16) / 2 ^ 53"
      using pb by (intro divide_right_mono) simp_all
    moreover have "(1 / 16) / 2 ^ 53 + 1 / 2 ^ 1075 \<le> (1::real) / 2 ^ 56" by simp
    ultimately show ?thesis by linarith
  qed
  have sb: "\<bar>c1 + p\<bar> \<le> 1"
  proof -
    have "(1::real) / 2 ^ 56 \<le> 1 / 2" by simp
    with e5 pb c1 show ?thesis by linarith
  qed
  have e6: "\<bar>f - (c1 + p)\<bar> \<le> 1 / 2 ^ 52"
  proof -
    have "\<bar>f - (c1 + p)\<bar> \<le> \<bar>c1 + p\<bar> / 2 ^ 53 + 1 / 2 ^ 1075"
      unfolding f_def by (rule round_double_error)
    moreover have "\<bar>c1 + p\<bar> / 2 ^ 53 \<le> 1 / 2 ^ 53"
      using sb by (intro divide_right_mono) simp_all
    moreover have "1 / 2 ^ 53 + 1 / 2 ^ 1075 \<le> (1::real) / 2 ^ 52" by simp
    ultimately show ?thesis by linarith
  qed
  have "\<bar>f - (c1 + c2 * exp a)\<bar> \<le> 1 / 2 ^ 52 + 1 / 2 ^ 56 + 1 / 2 ^ 50"
    using e4 e5 e6 by linarith
  also have "\<dots> \<le> 1 / 2 ^ 48" by simp
  finally have "\<bar>f - (c1 + c2 * exp a)\<bar> \<le> 1 / 2 ^ 48" .
  moreover have "F_double np_exp v = Inr f"
    by (simp add: F_double_nonneg_eq [OF assms(1)] f_def p_def E_def y_def a_def c1_def c2_def)
  ultimately show ?thesis unfolding c1_def c2_def a_def by blast
qed

lemma round_double_sandwich:
  assumes "0 \<le> G" and "0 \<le> r" and "r \<le> 1" and "0 \<le> b"
    and lo: "G * (1 - r) - b \<le> x" and hi: "x \<le> G * (1 + r) + b"
  shows "G * (1 - (r + 1 / 2 ^ 52)) - (2 * b + 1 / 2 ^ 1075) \<le> round_double x"
    and "round_double x \<le> G * (1 + (r + 1 / 2 ^ 52)) + (2 * b + 1 / 2 ^ 1075)"
proof -
  have Gr: "0 \<le> G * r" "G * r \<le> G" using assms(1-3) by (simp_all add: mult_left_le)
  have ax: "\<bar>x\<bar> \<le> 2 * G + b"
    using lo hi Gr assms(1,4) by (simp add: algebra_simps abs_le_iff)
  have "\<bar>x\<bar> / 2 ^ 53 \<le> (2 * G + b) / 2 ^ 53" using ax by (intro divide_right_mono) simp_all
  also have "\<dots> = G / 2 ^ 52 + b / 2 ^ 53" by (simp add: add_divide_distrib)
  also have "\<dots> \<le> G / 2 ^ 52 + b"
  proof -
    have "b / 2 ^ 53 \<le> b / 1" using assms(4) by (intro divide_left_mono) simp_all
    then show ?thesis by simp
  qed
  finally have e: "\<bar>x\<bar> / 2 ^ 53 \<le> G / 2 ^ 52 + b" .
  have err: "\<bar>round_double x - x\<bar> \<le> \<bar>x\<bar> / 2 ^ 53 + 1 / 2 ^ 1075"
    by (rule round_double_error)
  have "G * (1 - (r + 1 / 2 ^ 52)) - (2 * b + 1 / 2 ^ 1075)
      = (G * (1 - r) - b) - (G / 2 ^ 52 + b) - 1 / 2 ^ 1075"
    by (simp add: algebra_simps)
  also have "\<dots> \<le> round_double x" using lo e err by linarith
  finally show "G * (1 - (r + 1 / 2 ^ 52)) - (2 * b + 1 / 2 ^ 1075) \<le> round_double x" .
  have "round_double x \<le> (G * (1 + r) + b) + (G / 2 ^ 52 + b) + 1 / 2 ^ 1075"
    using hi e err by linarith
  also have "\<dots> = G * (1 + (r + 1 / 2 ^ 52)) + (2 * b + 1 / 2 ^ 1075)"
    by (simp add: algebra_simps)
  finally show "round_double x \<le> G * (1 + (r + 1 / 2 ^ 52)) + (2 * b + 1 / 2 ^ 1075)" .
qed

lemma double_C_0_1_bounds: "1 / 16 \<le> round_double C_0_1" "round_double C_0_1 \<le> 1 / 8"
  by (simp_all add: double_C_0_1)

lemma calculate_TR_double_sandwich:
  assumes "0 \<le> v"
    and acc: "\<And>x. x \<le> 0 \<Longrightarrow> \<bar>np_exp x - exp x\<bar> \<le> exp x / 2 ^ 50 + 1 / 2 ^ 1074"
  shows "\<exists>tr. calculate_TR_double np_exp v = Inr tr \<and>
           (round_double C_0_01 + round_double C_0_02 * exp (round_double C_NEG_0_00005 * v))
              * v / round_double C_0_1 * (1 - 1 / 2 ^ 40) - 1 / 2 ^ 1069 \<le> tr \<and>
           tr \<le> (round_double C_0_01
                    + round_double C_0_02 * exp (round_double C_NEG_0_00005 * v))
              * v / round_double C_0_1 * (1 + 1 / 2 ^ 40) + 1 / 2 ^ 1069"
proof -
  define FM where "FM = round_double C_0_01
      + round_double C_0_02 * exp (round_double C_NEG_0_00005 * v)"
  define c3 where "c3 = round_double C_0_1"
  have c3: "1 / 16 \<le> c3" "c3 \<le> 1 / 8" "0 < c3"
    unfolding c3_def using double_C_0_1_bounds double_C_0_1_pos by simp_all
  have "\<exists>f. F_double np_exp v = Inr f \<and> \<bar>f - FM\<bar> \<le> 1 / 2 ^ 48"
    unfolding FM_def by (rule F_double_close [OF assms(1)]) (rule acc)
  then obtain f where f: "F_double np_exp v = Inr f" and close: "\<bar>f - FM\<bar> \<le> 1 / 2 ^ 48"
    by blast
  have FM: "1 / 128 \<le> FM"
  proof -
    have "0 \<le> round_double C_0_02 * exp (round_double C_NEG_0_00005 * v)"
      using double_C_0_02_pos by simp
    then show ?thesis unfolding FM_def using double_C_0_01_ge by linarith
  qed
  have M0: "0 \<le> FM * v / c3" using FM assms(1) c3(3) by simp
  show ?thesis
  proof (cases "v = 0")
    case True
    then have "calculate_TR_double np_exp v = Inr 0"
      by (simp add: calculate_TR_double_def)
    then show ?thesis using True by simp
  next
    case False
    have rel: "1 / 2 ^ 48 \<le> FM * (1 / 2 ^ 41)"
    proof -
      have "1 / 128 * (1 / 2 ^ 41) \<le> FM * (1 / 2 ^ 41)"
        using FM by (intro mult_right_mono) simp_all
      then show ?thesis by simp
    qed
    have x1: "FM * (1 - 1 / 2 ^ 41) = FM - FM * (1 / 2 ^ 41)"
      and x2: "FM * (1 + 1 / 2 ^ 41) = FM + FM * (1 / 2 ^ 41)"
      by (simp_all add: algebra_simps)
    have f1: "FM * (1 - 1 / 2 ^ 41) \<le> f" and f2: "f \<le> FM * (1 + 1 / 2 ^ 41)"
      unfolding x1 x2 using close rel by linarith+
    have fv1: "FM * v * (1 - 1 / 2 ^ 41) - 0 \<le> f * v"
    proof -
      have "FM * (1 - 1 / 2 ^ 41) * v \<le> f * v" using f1 assms(1) by (rule mult_right_mono)
      then show ?thesis by (simp add: algebra_simps)
    qed
    have fv2: "f * v \<le> FM * v * (1 + 1 / 2 ^ 41) + 0"
    proof -
      have "f * v \<le> FM * (1 + 1 / 2 ^ 41) * v" using f2 assms(1) by (rule mult_right_mono)
      then show ?thesis by (simp add: algebra_simps)
    qed
    have G1: "0 \<le> FM * v" using FM assms(1) by simp
    define m where "m = round_double (f * v)"
    have m1: "FM * v * (1 - (1 / 2 ^ 41 + 1 / 2 ^ 52)) - (2 * 0 + 1 / 2 ^ 1075) \<le> m"
      unfolding m_def by (rule round_double_sandwich(1) [OF G1 _ _ _ fv1 fv2]) simp_all
    have m2: "m \<le> FM * v * (1 + (1 / 2 ^ 41 + 1 / 2 ^ 52)) + (2 * 0 + 1 / 2 ^ 1075)"
      unfolding m_def by (rule round_double_sandwich(2) [OF G1 _ _ _ fv1 fv2]) simp_all
    have d1: "FM * v / c3 * (1 - (1 / 2 ^ 41 + 1 / 2 ^ 52)) - 16 / 2 ^ 1075 \<le> m / c3"
    proof -
      have "(FM * v * (1 - (1 / 2 ^ 41 + 1 / 2 ^ 52)) - 1 / 2 ^ 1075) / c3 \<le> m / c3"
        using m1 c3(3) by (intro divide_right_mono) simp_all
      moreover have "(1 / 2 ^ 1075) / c3 \<le> (1 / 2 ^ 1075) / (1 / 16)"
        using c3 by (intro divide_left_mono) simp_all
      ultimately show ?thesis by (simp add: diff_divide_distrib algebra_simps)
    qed
    have d2: "m / c3 \<le> FM * v / c3 * (1 + (1 / 2 ^ 41 + 1 / 2 ^ 52)) + 16 / 2 ^ 1075"
    proof -
      have "m / c3 \<le> (FM * v * (1 + (1 / 2 ^ 41 + 1 / 2 ^ 52)) + 1 / 2 ^ 1075) / c3"
        using m2 c3(3) by (intro divide_right_mono) simp_all
      moreover have "(1 / 2 ^ 1075) / c3 \<le> (1 / 2 ^ 1075) / (1 / 16)"
        using c3 by (intro divide_left_mono) simp_all
      ultimately show ?thesis by (simp add: add_divide_distrib algebra_simps)
    qed
    define t where "t = round_double (m / c3)"
    have t1: "FM * v / c3 * (1 - (1 / 2 ^ 41 + 1 / 2 ^ 52 + 1 / 2 ^ 52))
        - (2 * (16 / 2 ^ 1075) + 1 / 2 ^ 1075) \<le> t"
      unfolding t_def by (rule round_double_sandwich(1) [OF M0 _ _ _ d1 d2]) simp_all
    have t2: "t \<le> FM * v / c3 * (1 + (1 / 2 ^ 41 + 1 / 2 ^ 52 + 1 / 2 ^ 52))
        + (2 * (16 / 2 ^ 1075) + 1 / 2 ^ 1075)"
      unfolding t_def by (rule round_double_sandwich(2) [OF M0 _ _ _ d1 d2]) simp_all
    have r: "(1::real) / 2 ^ 41 + 1 / 2 ^ 52 + 1 / 2 ^ 52 \<le> 1 / 2 ^ 40" by simp
    have b: "2 * (16 / 2 ^ 1075) + 1 / 2 ^ 1075 \<le> (1::real) / 2 ^ 1069" by simp
    have w: "FM * v / c3 * (1 / 2 ^ 41 + 1 / 2 ^ 52 + 1 / 2 ^ 52) \<le> FM * v / c3 * (1 / 2 ^ 40)"
      using M0 r by (rule mult_left_mono [rotated])
    have lower: "FM * v / c3 * (1 - 1 / 2 ^ 40) - 1 / 2 ^ 1069 \<le> t"
      using t1 w b by (simp add: algebra_simps)
    have upper: "t \<le> FM * v / c3 * (1 + 1 / 2 ^ 40) + 1 / 2 ^ 1069"
      using t2 w b by (simp add: algebra_simps)
    have "calculate_TR_double np_exp v = Inr t"
      using False by (simp add: calculate_TR_double_eq [OF assms(1) f] t_def m_def c3_def)
    with lower upper show ?thesis unfolding FM_def c3_def by blast
  qed
qed

lemma cost_shape_deriv:
  fixes A B K x :: real
  shows "((\<lambda>v. (A + B * exp (K * v)) * v) has_real_derivative
           (A + B * (exp (- (- K * x)) * (1 - (- K * x))))) (at x)"
  by (auto intro!: derivative_eq_intros simp: algebra_simps)

lemma cost_shape_mono:
  fixes A B K v1 v2 :: real
  assumes "0 \<le> B" and "B \<le> 4 * A" and "v1 \<le> v2"
  shows "(A + B * exp (K * v1)) * v1 \<le> (A + B * exp (K * v2)) * v2"
proof (rule DERIV_nonneg_imp_nondecreasing [OF assms(3)])
  fix x :: real
  have "- (1 / 4) \<le> exp (- (- K * x)) * (1 - (- K * x))" by (rule exp_decay_bound)
  then have "B * (- (1 / 4)) \<le> B * (exp (- (- K * x)) * (1 - (- K * x)))"
    using assms(1) by (rule mult_left_mono)
  then have "0 \<le> A + B * (exp (- (- K * x)) * (1 - (- K * x)))"
    using assms(2) by linarith
  then show "\<exists>y. ((\<lambda>v. (A + B * exp (K * v)) * v) has_real_derivative y) (at x) \<and> 0 \<le> y"
    using cost_shape_deriv by blast
qed

lemma double_C_0_02_le_4_C_0_01: "round_double C_0_02 \<le> 4 * round_double C_0_01"
  by (simp add: double_C_0_01 double_C_0_02)

lemma cost_double_formula_mono:
  fixes v1 v2 :: real
  assumes "v1 \<le> v2"
  shows "(round_double C_0_01 + round_double C_0_02 * exp (round_double C_NEG_0_00005 * v1))
            * v1 / round_double C_0_1
       \<le> (round_double C_0_01 + round_double C_0_02 * exp (round_double C_NEG_0_00005 * v2))
            * v2 / round_double C_0_1"
proof -
  have "(round_double C_0_01 + round_double C_0_02 * exp (round_double C_NEG_0_00005 * v1)) * v1
      \<le> (round_double C_0_01 + round_double C_0_02 * exp (round_double C_NEG_0_00005 * v2)) * v2"
    using double_C_0_02_pos double_C_0_02_le_4_C_0_01 assms by (rule cost_shape_mono)
  then show ?thesis using double_C_0_1_pos by (intro divide_right_mono) simp_all
qed

lemma cost_double_formula_nonneg:
  fixes v :: real
  assumes "0 \<le> v"
  shows "0 \<le> (round_double C_0_01 + round_double C_0_02 * exp (round_double C_NEG_0_00005 * v))
            * v / round_double C_0_1"
proof -
  have "0 \<le> round_double C_0_01 + round_double C_0_02 * exp (round_double C_NEG_0_00005 * v)"
    using double_C_0_01_pos double_C_0_02_pos by simp
  then show ?thesis using assms double_C_0_1_pos by simp
qed

lemma tolerance_monotone:
  fixes g1 g2 d1 d2 r b :: real
  assumes "0 \<le> g1" and "g1 \<le> g2" and "0 \<le> r" and "r \<le> 1 / 4" and "0 \<le> b"
    and up: "d1 \<le> g1 * (1 + r) + b" and low: "g2 * (1 - r) - b \<le> d2"
  shows "d1 \<le> d2 * (1 + 4 * r) + 4 * b"
proof -
  have g2: "0 \<le> g2" using assms(1,2) by simp
  have "g1 * (1 + r) \<le> g2 * (1 + r)" using assms(2,3) by (intro mult_right_mono) simp_all
  with up have a: "d1 \<le> g2 * (1 + r) + b" by linarith
  have "(1 + r) \<le> (1 - r) * (1 + 4 * r)"
  proof -
    have "r * r \<le> 1 / 4 * r" using assms(3,4) by (intro mult_right_mono) simp_all
    moreover have "0 \<le> r * r" by simp
    moreover have "(1 - r) * (1 + 4 * r) = 1 + 3 * r - 4 * (r * r)" by (simp add: algebra_simps)
    ultimately show ?thesis by linarith
  qed
  then have "g2 * (1 + r) \<le> g2 * ((1 - r) * (1 + 4 * r))" using g2 by (rule mult_left_mono)
  also have "\<dots> = (g2 * (1 - r)) * (1 + 4 * r)" by simp
  also have "\<dots> \<le> (d2 + b) * (1 + 4 * r)"
    using low assms(3) by (intro mult_right_mono) simp_all
  also have "\<dots> = d2 * (1 + 4 * r) + b * (1 + 4 * r)" by (simp add: algebra_simps)
  also have "\<dots> \<le> d2 * (1 + 4 * r) + b * 2"
    using assms(3,4,5) by (intro add_left_mono mult_left_mono) simp_all
  finally have "g2 * (1 + r) \<le> d2 * (1 + 4 * r) + b * 2" .
  with a assms(5) show ?thesis by linarith
qed

lemma exp_double_accurate:
  "\<bar>exp_double x - exp x\<bar> \<le> exp x / 2 ^ 50 + 1 / 2 ^ 1074"
proof -
  have "\<bar>round_double (exp x) - exp x\<bar> \<le> \<bar>exp x\<bar> / 2 ^ 53 + 1 / 2 ^ 1075"
    by (rule round_double_error)
  moreover have "\<bar>exp x\<bar> / 2 ^ 53 \<le> exp x / 2 ^ 50" by (simp add: field_simps)
  moreover have "(1::real) / 2 ^ 1075 \<le> 1 / 2 ^ 1074" by simp
  ultimately show ?thesis unfolding exp_double_def by linarith
qed

lemma cost_double_tolerance:
  assumes "0 \<le> v1" and "v1 \<le> v2"
    and acc: "\<And>x. x \<le> 0 \<Longrightarrow> \<bar>np_exp x - exp x\<bar> \<le> exp x / 2 ^ 50 + 1 / 2 ^ 1074"
  shows "\<exists>t1 t2. calculate_TR_double np_exp v1 = Inr t1 \<and>
           calculate_TR_double np_exp v2 = Inr t2 \<and>
           t1 \<le> t2 * (1 + 1 / 2 ^ 38) + 1 / 2 ^ 1067"
proof -
  let ?M = "\<lambda>v. (round_double C_0_01
      + round_double C_0_02 * exp (round_double C_NEG_0_00005 * v)) * v / round_double C_0_1"
  have v2: "0 \<le> v2" using assms(1,2) by simp
  have "\<exists>tr. calculate_TR_double np_exp v1 = Inr tr \<and>
      ?M v1 * (1 - 1 / 2 ^ 40) - 1 / 2 ^ 1069 \<le> tr \<and> tr \<le> ?M v1 * (1 + 1 / 2 ^ 40) + 1 / 2 ^ 1069"
    by (rule calculate_TR_double_sandwich [OF assms(1)]) (rule acc)
  then obtain t1 where t1: "calculate_TR_double np_exp v1 = Inr t1"
    and up: "t1 \<le> ?M v1 * (1 + 1 / 2 ^ 40) + 1 / 2 ^ 1069" by blast
  have "\<exists>tr. calculate_TR_double np_exp v2 = Inr tr \<and>
      ?M v2 * (1 - 1 / 2 ^ 40) - 1 / 2 ^ 1069 \<le> tr \<and> tr \<le> ?M v2 * (1 + 1 / 2 ^ 40) + 1 / 2 ^ 1069"
    by (rule calculate_TR_double_sandwich [OF v2]) (rule acc)
  then obtain t2 where t2: "calculate_TR_double np_exp v2 = Inr t2"
    and low: "?M v2 * (1 - 1 / 2 ^ 40) - 1 / 2 ^ 1069 \<le> t2" by blast
  have "t1 \<le> t2 * (1 + 4 * (1 / 2 ^ 40)) + 4 * (1 / 2 ^ 1069)"
    by (rule tolerance_monotone [OF cost_double_formula_nonneg [OF assms(1)]
          cost_double_formula_mono [OF assms(2)] _ _ _ up low]) simp_all
  then have "t1 \<le> t2 * (1 + 1 / 2 ^ 38) + 1 / 2 ^ 1067" by simp
  with t1 t2 show ?thesis by blast
qed

lemma exp_double_nonneg: "x \<le> 0 \<Longrightarrow> 0 \<le> exp_double x"
  using exp_double_unit_interval by blast

section \<open>Range of the evaluation\<close>

text \<open>
  C2, as claimed: for every \<open>v \<ge> 0\<close> the pair \<open>(tr, ti)\<close> returned has \<open>ti \<le> tr / 3\<close>.
  In double precision this fails at the subnormal volume \<open>v = 60 / 2 ^ 1074\<close>: the
  argument of the exponential rounds to zero, the unit factor is \<open>0.03\<close>, the product
  \<open>0.03 * v\<close> rounds to \<open>2 / 2 ^ 1074\<close> and the cost to \<open>20 / 2 ^ 1074\<close>; the cap, a third
  of it, rounds up to \<open>7 / 2 ^ 1074\<close>, and that is the reward returned, which exceeds
  \<open>20 / 3 / 2 ^ 1074\<close>.
\<close>

theorem evaluate_bounds_counterexample:
  "calculate_TR_and_TI_double exp_double power_double (60 / 2 ^ 1074)
     = Inr (20 / 2 ^ 1074, 7 / 2 ^ 1074) \<and>
   (20 / 2 ^ 1074) / 3 < (7 / 2 ^ 1074 :: real)"
proof
  have "calculate_TR_and_TI_double exp_double power_double (60 / 2 ^ 1074)
      = Inr (5 / 2 ^ 1072, 7 / 2 ^ 1074)"
  proof (rule evaluate_double_capped)
    show "(0::real) \<le> 60 / 2 ^ 1074" by simp
    show "\<And>b. 1 \<le> b \<Longrightarrow> 1 \<le> power_double b (round_double POWER_EXPONENT)"
      by (rule power_double_ge_one)
    show "calculate_TR_double exp_double (60 / 2 ^ 1074) = Inr (5 / 2 ^ 1072)" by (rule sub_TR_double)
    show "round_double (round_double MAX_TI_FRACTION_OF_TR * (5 / 2 ^ 1072)) = 7 / 2 ^ 1074"
      by (simp only: double_MAX_TI_FRACTION_OF_TR sub_cap)
    show "(0::real) \<le> 7 / 2 ^ 1074" by simp
    show "(7 / 2 ^ 1074 :: real) \<le> 10" by simp
  qed
  then show "calculate_TR_and_TI_double exp_double power_double (60 / 2 ^ 1074)
     = Inr (20 / 2 ^ 1074, 7 / 2 ^ 1074)"
    by simp
  show "(20 / 2 ^ 1074) / 3 < (7 / 2 ^ 1074 :: real)" by simp
qed

text \<open>
  C2, as amended: for every \<open>v \<ge> 0\<close> the pair \<open>(tr, ti)\<close> returned in double precision
  has \<open>tr \<ge> 0\<close> and \<open>0 \<le> ti\<close>, and \<open>ti\<close> is at most the cap the code computes, which is at
  most the double nearest to \<open>tr / 3\<close> (the value that Python's \<^verbatim>\<open>tr / 3\<close> has), for any
  implementation of the exponential that is non-negative on non-positive arguments and
  any implementation of the power. For the exact formulas \<open>ti \<le> tr / 3\<close> holds as claimed.
\<close>

theorem evaluate_bounds_rounded:
  assumes "0 \<le> v" and "\<And>x. x \<le> 0 \<Longrightarrow> 0 \<le> np_exp x"
  shows "(\<exists>tr ti. calculate_TR_and_TI_double np_exp np_power v = Inr (tr, ti) \<and>
            0 \<le> tr \<and> 0 \<le> ti \<and>
            ti \<le> round_double (round_double MAX_TI_FRACTION_OF_TR * tr) \<and>
            ti \<le> round_double (tr / 3)) \<and>
         (\<exists>tr ti. calculate_TR_and_TI v = Inr (tr, ti) \<and> 0 \<le> tr \<and> 0 \<le> ti \<and> ti \<le> tr / 3)"
proof
  show "\<exists>tr ti. calculate_TR_and_TI_double np_exp np_power v = Inr (tr, ti) \<and>
            0 \<le> tr \<and> 0 \<le> ti \<and>
            ti \<le> round_double (round_double MAX_TI_FRACTION_OF_TR * tr) \<and>
            ti \<le> round_double (tr / 3)"
    by (rule evaluate_double_bounds [OF assms(1)]) (rule assms(2))
  show "\<exists>tr ti. calculate_TR_and_TI v = Inr (tr, ti) \<and> 0 \<le> tr \<and> 0 \<le> ti \<and> ti \<le> tr / 3"
    using assms(1) by (rule evaluate_bounds_exact)
qed

theorem evaluate_bounds_rounded_witness:
  "(\<exists>tr ti. calculate_TR_and_TI_double exp_double power_double (60 / 2 ^ 1074) = Inr (tr, ti) \<and>
      0 \<le> tr \<and> 0 \<le> ti \<and>
      ti \<le> round_double (round_double MAX_TI_FRACTION_OF_TR * tr) \<and>
      ti \<le> round_double (tr / 3)) \<and>
   (\<exists>tr ti. calculate_TR_and_TI (60 / 2 ^ 1074) = Inr (tr, ti) \<and>
      0 \<le> tr \<and> 0 \<le> ti \<and> ti \<le> tr / 3)"
  by (rule evaluate_bounds_rounded [OF _ exp_double_nonneg]) simp_all

section \<open>Monotonicity of the cost\<close>

text \<open>
  C6, as claimed: for \<open>0 \<le> v1 \<le> v2\<close> the cost at \<open>v1\<close> is at most the cost at \<open>v2\<close>. In
  double precision this fails between the adjacent doubles \<open>5533853081843794 / 2 ^ 52\<close>
  and \<open>5533853081843795 / 2 ^ 52\<close> (about \<open>1.2287622212711722\<close>): the correctly rounded
  exponential steps down by one unit in the last place between them, the unit factor
  follows, and the cost returned is \<open>6640351714983506 / 2 ^ 54\<close> at the smaller volume and
  \<open>6640351714983505 / 2 ^ 54\<close> at the larger.
\<close>

theorem cost_monotone_counterexample:
  "calculate_TR_double exp_double (5533853081843794 / 2 ^ 52) = Inr (6640351714983506 / 2 ^ 54) \<and>
   calculate_TR_double exp_double (5533853081843795 / 2 ^ 52) = Inr (6640351714983505 / 2 ^ 54) \<and>
   (5533853081843794 / 2 ^ 52 :: real) < 5533853081843795 / 2 ^ 52 \<and>
   (6640351714983505 / 2 ^ 54 :: real) < 6640351714983506 / 2 ^ 54"
  using lo_TR_double hi_TR_double by simp

text \<open>
  C6, as amended: the cost is monotone up to rounding. For \<open>0 \<le> v1 \<le> v2\<close> the cost
  returned in double precision at \<open>v1\<close> is at most the cost returned at \<open>v2\<close> enlarged by
  the relative error \<open>1 / 2 ^ 38\<close> and the absolute error \<open>1 / 2 ^ 1067\<close>, for any
  implementation of the exponential that is accurate to the relative error \<open>1 / 2 ^ 50\<close>
  (and the absolute error \<open>1 / 2 ^ 1074\<close> where it underflows). For the exact formula
  the cost at \<open>v1\<close> is at most the cost at \<open>v2\<close>, as claimed.
\<close>

theorem cost_monotone_up_to_rounding:
  assumes "0 \<le> v1" and "v1 \<le> v2"
    and "\<And>x. x \<le> 0 \<Longrightarrow> \<bar>np_exp x - exp x\<bar> \<le> exp x / 2 ^ 50 + 1 / 2 ^ 1074"
  shows "(\<exists>t1 t2. calculate_TR_double np_exp v1 = Inr t1 \<and>
            calculate_TR_double np_exp v2 = Inr t2 \<and>
            t1 \<le> t2 * (1 + 1 / 2 ^ 38) + 1 / 2 ^ 1067) \<and>
         (\<exists>t1 t2. calculate_TR v1 = Inr t1 \<and> calculate_TR v2 = Inr t2 \<and> t1 \<le> t2)"
proof
  show "\<exists>t1 t2. calculate_TR_double np_exp v1 = Inr t1 \<and>
            calculate_TR_double np_exp v2 = Inr t2 \<and>
            t1 \<le> t2 * (1 + 1 / 2 ^ 38) + 1 / 2 ^ 1067"
    by (rule cost_double_tolerance [OF assms(1,2)]) (rule assms(3))
  show "\<exists>t1 t2. calculate_TR v1 = Inr t1 \<and> calculate_TR v2 = Inr t2 \<and> t1 \<le> t2"
    using assms(1,2) by (rule cost_monotone_exact)
qed

theorem cost_monotone_up_to_rounding_witness:
  "(\<exists>t1 t2. calculate_TR_double exp_double (5533853081843794 / 2 ^ 52) = Inr t1 \<and>
      calculate_TR_double exp_double (5533853081843795 / 2 ^ 52) = Inr t2 \<and>
      t1 \<le> t2 * (1 + 1 / 2 ^ 38) + 1 / 2 ^ 1067) \<and>
   (\<exists>t1 t2. calculate_TR (5533853081843794 / 2 ^ 52) = Inr t1 \<and>
      calculate_TR (5533853081843795 / 2 ^ 52) = Inr t2 \<and> t1 \<le> t2)"
  by (rule cost_monotone_up_to_rounding [OF _ _ exp_double_accurate]) simp_all

end
